theory Spec2Isabelle
  imports Main "HOL-Library.Char_ord" "HOL-Library.List_Lexorder" "HOL-Library.Sublist"
begin

section \<open>HTTP headers and the response sink\<close>

text \<open>
  The Go type \<open>http.Header\<close> is \<open>map[string][]string\<close>.  \<open>Set\<close> replaces the values
  of a key by one value, \<open>Get\<close> reads the first value of a key and gives the empty string
  for a missing key.  Every key that routes.go uses is already in canonical form, so the
  canonicalisation of keys is left out.
\<close>

type_synonym header = "string \<rightharpoonup> string list"

definition Header_Set :: "string \<Rightarrow> string \<Rightarrow> header \<Rightarrow> header" where
  "Header_Set k v h = h(k \<mapsto> [v])"

definition Header_Get :: "header \<Rightarrow> string \<Rightarrow> string" where
  "Header_Get h k = (case h k of None \<Rightarrow> [] | Some [] \<Rightarrow> [] | Some (v # _) \<Rightarrow> v)"

text \<open>
  The field \<open>writer\<close> of the wrapper is an \<open>http.ResponseWriter\<close> of package net/http.
  Its contract: \<open>Header()\<close> gives the header map, which the caller mutates in place;
  \<open>WriteHeader(code)\<close> sends the status line together with the header map as it is at
  that moment, and a second call is ignored; \<open>Write\<close> first does \<open>WriteHeader(200)\<close>
  when no header was sent yet, then appends to the body; a change of the header map after
  the header was sent does not reach the client.  The record keeps the live map
  (\<open>hdr\<close>) and what was sent (\<open>sent_status\<close>, \<open>sent_hdr\<close>, \<open>body\<close>) apart.
  \<open>sent_hdr\<close> is the part of the sent headers that comes from the header map: what a
  server adds by itself (a date, a content type found by sniffing the first bytes, a
  content length that it computes) is left out, and so is the panic of net/http on a
  status outside 100 to 999.
\<close>

record sink =
  hdr :: header
  wroteHeader :: bool
  sent_status :: int
  sent_hdr :: header
  body :: string

definition new_sink :: sink where
  "new_sink = \<lparr>hdr = Map.empty, wroteHeader = False, sent_status = 0,
     sent_hdr = Map.empty, body = []\<rparr>"

definition sink_WriteHeader :: "int \<Rightarrow> sink \<Rightarrow> sink" where
  "sink_WriteHeader code s =
     (if wroteHeader s then s
      else s\<lparr>wroteHeader := True, sent_status := code, sent_hdr := hdr s\<rparr>)"

definition sink_Write :: "string \<Rightarrow> sink \<Rightarrow> sink" where
  "sink_Write p s =
     (let s' = (if wroteHeader s then s else sink_WriteHeader 200 s)
      in s'\<lparr>body := body s' @ p\<rparr>)"

section \<open>The response wrapper (routes.go, lines 257-291)\<close>

record responseWriter =
  writer :: sink
  started :: bool
  size_rw :: int
  status :: int

text \<open>
  The field \<open>size\<close> of the source is \<open>size_rw\<close> here.
  \<open>&responseWriter{writer: rw}\<close>: the other fields have Go's zero values.
\<close>

definition new_responseWriter :: "sink \<Rightarrow> responseWriter" where
  "new_responseWriter rw = \<lparr>writer = rw, started = False, size_rw = 0, status = 0\<rparr>"

text \<open>\<open>strconv.Itoa\<close> on a length, which is never negative.\<close>

definition digit_char :: "nat \<Rightarrow> char" where
  "digit_char d = char_of (48 + d)"

fun Itoa_nat :: "nat \<Rightarrow> string" where
  "Itoa_nat n = (if n < 10 then [digit_char n] else Itoa_nat (n div 10) @ [digit_char (n mod 10)])"

declare Itoa_nat.simps [simp del]

text \<open>
  \<open>w.Header().Set(k, v)\<close> through the wrapper: \<open>Header()\<close> passes the sink's map on.
\<close>

definition rw_Header_Set :: "string \<Rightarrow> string \<Rightarrow> responseWriter \<Rightarrow> responseWriter" where
  "rw_Header_Set k v w = w\<lparr>writer := (writer w)\<lparr>hdr := Header_Set k v (hdr (writer w))\<rparr>\<rparr>"

text \<open>
  \<open>Write\<close> (lines 275-281) and \<open>WriteHeader\<close> (lines 285-291).  The first argument is
  the process-wide variable \<open>DefaultAccessControlOrigin\<close>.  The order of the statements
  is the source's: \<open>Write\<close> sets both headers and then delegates, \<open>WriteHeader\<close>
  delegates and then sets both headers.
\<close>

definition rw_Write :: "string \<Rightarrow> string \<Rightarrow> responseWriter \<Rightarrow> responseWriter" where
  "rw_Write origin p w =
     (let w1 = w\<lparr>size_rw := int (length p)\<rparr>;
          w2 = w1\<lparr>started := True\<rparr>;
          w3 = rw_Header_Set ''Content-Length'' (Itoa_nat (length p)) w2;
          w4 = rw_Header_Set ''Access-Control-Allow-Origin'' origin w3
      in w4\<lparr>writer := sink_Write p (writer w4)\<rparr>)"

definition rw_WriteHeader :: "string \<Rightarrow> int \<Rightarrow> responseWriter \<Rightarrow> responseWriter" where
  "rw_WriteHeader origin code w =
     (let w1 = w\<lparr>status := code\<rparr>;
          w2 = w1\<lparr>started := True\<rparr>;
          w3 = w2\<lparr>writer := sink_WriteHeader code (writer w2)\<rparr>;
          w4 = rw_Header_Set ''Content-Length'' ''0'' w3
      in rw_Header_Set ''Access-Control-Allow-Origin'' origin w4)"

section \<open>Strings (package strings)\<close>

text \<open>
  \<open>strings.Split(s, "/")\<close> gives every piece between separators, so the result is
  never empty: the empty string splits into one empty piece.
\<close>

fun Split :: "string \<Rightarrow> char \<Rightarrow> string list" where
  "Split [] c = [[]]"
| "Split (x # xs) c =
     (if x = c then [] # Split xs c
      else (case Split xs c of [] \<Rightarrow> [[x]] | p # ps \<Rightarrow> (x # p) # ps))"

fun Join :: "string list \<Rightarrow> string \<Rightarrow> string" where
  "Join [] sep = []"
| "Join [p] sep = p"
| "Join (p # q # ps) sep = p @ sep @ Join (q # ps) sep"

definition HasPrefix :: "string \<Rightarrow> string \<Rightarrow> bool" where
  "HasPrefix s p = (take (length p) s = p)"

text \<open>\<open>strings.Index(s, c)\<close> for a one-byte separator; \<open>None\<close> is Go's \<open>-1\<close>.\<close>

fun Index :: "string \<Rightarrow> char \<Rightarrow> nat option" where
  "Index [] c = None"
| "Index (x # xs) c = (if x = c then Some 0 else map_option Suc (Index xs c))"

definition Contains :: "string \<Rightarrow> char \<Rightarrow> bool" where
  "Contains s c = (Index s c \<noteq> None)"

text \<open>\<open>strings.Cut(s, sep)\<close> without its third result.\<close>

definition Cut :: "string \<Rightarrow> char \<Rightarrow> string \<times> string" where
  "Cut s c = (case Index s c of None \<Rightarrow> (s, []) | Some i \<Rightarrow> (take i s, drop (Suc i) s))"

section \<open>Query strings (package net/url)\<close>

text \<open>
  \<open>url.Values\<close> is \<open>map[string][]string\<close>.  \<open>Encode\<close> walks the keys in sorted
  order, so the model needs the key set: an association list, one entry per key.
  \<open>Add\<close> appends to the values of a key, \<open>Get\<close> reads the first one.
\<close>

type_synonym Values = "(string \<times> string list) list"

definition Values_lookup :: "Values \<Rightarrow> string \<Rightarrow> string list" where
  "Values_lookup v k = (case map_of v k of None \<Rightarrow> [] | Some xs \<Rightarrow> xs)"

definition Values_Add :: "string \<Rightarrow> string \<Rightarrow> Values \<Rightarrow> Values" where
  "Values_Add k x v =
     (case map_of v k of
        None \<Rightarrow> v @ [(k, [x])]
      | Some _ \<Rightarrow> map (\<lambda>(k', xs). if k' = k then (k', xs @ [x]) else (k', xs)) v)"

definition Values_Get :: "Values \<Rightarrow> string \<Rightarrow> string" where
  "Values_Get v k = (case Values_lookup v k of [] \<Rightarrow> [] | x # _ \<Rightarrow> x)"

definition ishex :: "char \<Rightarrow> bool" where
  "ishex c = ((CHR ''0'' \<le> c \<and> c \<le> CHR ''9'') \<or> (CHR ''a'' \<le> c \<and> c \<le> CHR ''f'')
     \<or> (CHR ''A'' \<le> c \<and> c \<le> CHR ''F''))"

definition unhex :: "char \<Rightarrow> nat" where
  "unhex c =
     (if CHR ''0'' \<le> c \<and> c \<le> CHR ''9'' then of_char c - of_char CHR ''0''
      else if CHR ''a'' \<le> c \<and> c \<le> CHR ''f'' then of_char c - of_char CHR ''a'' + 10
      else if CHR ''A'' \<le> c \<and> c \<le> CHR ''F'' then of_char c - of_char CHR ''A'' + 10
      else 0)"

text \<open>
  \<open>url.QueryUnescape\<close>: \<open>%XY\<close> becomes the byte, \<open>+\<close> becomes a space, and a
  \<open>%\<close> that is not followed by two hexadecimal digits is an error (\<open>None\<close>).
\<close>

fun QueryUnescape :: "string \<Rightarrow> string option" where
  "QueryUnescape [] = Some []"
| "QueryUnescape (c # cs) =
     (if c = CHR ''%'' then
        (case cs of
           a # b # rest \<Rightarrow>
             if ishex a \<and> ishex b
             then map_option ((#) (char_of (unhex a * 16 + unhex b))) (QueryUnescape rest)
             else None
         | _ \<Rightarrow> None)
      else if c = CHR ''+'' then map_option ((#) CHR '' '') (QueryUnescape cs)
      else map_option ((#) c) (QueryUnescape cs))"

text \<open>
  \<open>url.QueryEscape\<close>: letters, digits and \<open>- _ . ~\<close> stay, a space becomes \<open>+\<close>,
  every other byte becomes \<open>%XY\<close> with upper-case digits.
\<close>

definition shouldEscape :: "char \<Rightarrow> bool" where
  "shouldEscape c =
     (\<not> ((CHR ''a'' \<le> c \<and> c \<le> CHR ''z'') \<or> (CHR ''A'' \<le> c \<and> c \<le> CHR ''Z'')
        \<or> (CHR ''0'' \<le> c \<and> c \<le> CHR ''9'')
        \<or> c = CHR ''-'' \<or> c = CHR ''_'' \<or> c = CHR ''.'' \<or> c = CHR ''~''))"

definition upperhex :: "nat \<Rightarrow> char" where
  "upperhex n = ''0123456789ABCDEF'' ! (n mod 16)"

definition escape_byte :: "char \<Rightarrow> string" where
  "escape_byte c =
     (if c = CHR '' '' then ''+''
      else if shouldEscape c
      then [CHR ''%'', upperhex (of_char c div 16), upperhex (of_char c mod 16)]
      else [c])"

definition QueryEscape :: "string \<Rightarrow> string" where
  "QueryEscape s = concat (map escape_byte s)"

text \<open>
  \<open>url.ParseQuery\<close> (Go 1.17 and later), as \<open>URL.Query()\<close> uses it: the error is
  dropped and the pairs parsed so far are kept.  The loop cuts the query at each \<open>&\<close>; a piece with a
  semicolon, an empty piece and a piece whose key or value does not unescape are skipped.
\<close>

function parseQuery :: "Values \<Rightarrow> string \<Rightarrow> Values" where
  "parseQuery m query =
     (if query = [] then m
      else
        let (key, rest) = Cut query CHR ''&'' in
        if Contains key CHR '';'' then parseQuery m rest
        else if key = [] then parseQuery m rest
        else
          let (k, v) = Cut key CHR ''='' in
          (case QueryUnescape k of
             None \<Rightarrow> parseQuery m rest
           | Some k' \<Rightarrow>
               (case QueryUnescape v of
                  None \<Rightarrow> parseQuery m rest
                | Some v' \<Rightarrow> parseQuery (Values_Add k' v' m) rest)))"
  by pat_completeness auto
termination
proof -
  have less: "i < length s" if "Index s c = Some i" for s c i
    using that by (induction s arbitrary: i) (auto split: if_splits)
  have shorter: "length rest < length s" if "s \<noteq> []" "(k, rest) = Cut s c" for s c k rest
    using that by (auto simp: Cut_def split: option.splits dest: less)
  show ?thesis
    by (relation "measure (\<lambda>(m, q). length q)") (auto intro: shorter)
qed

declare parseQuery.simps [simp del]

definition ParseQuery :: "string \<Rightarrow> Values" where
  "ParseQuery query = parseQuery [] query"

text \<open>
  \<open>Values.Encode\<close>: keys in sorted order, each value as \<open>key=value\<close> with both sides
  escaped, an \<open>&\<close> before every pair but the first.
\<close>

fun encode_values :: "string \<Rightarrow> string \<Rightarrow> string list \<Rightarrow> string" where
  "encode_values buf keyEscaped [] = buf"
| "encode_values buf keyEscaped (v # vs) =
     encode_values ((if buf \<noteq> [] then buf @ ''&'' else buf) @ keyEscaped @ ''='' @ QueryEscape v)
       keyEscaped vs"

fun encode_keys :: "Values \<Rightarrow> string \<Rightarrow> string list \<Rightarrow> string" where
  "encode_keys v buf [] = buf"
| "encode_keys v buf (k # ks) =
     encode_keys v (encode_values buf (QueryEscape k) (Values_lookup v k)) ks"

definition Encode :: "Values \<Rightarrow> string" where
  "Encode v = encode_keys v [] (sort (map fst v))"

section \<open>Requests, routes and the router (routes.go, lines 18-61)\<close>

text \<open>
  The fields of \<open>*http.Request\<close> that routes.go reads or writes: \<open>r.Method\<close>,
  \<open>r.URL.Path\<close>, \<open>r.URL.RawQuery\<close>, \<open>r.Header\<close>, \<open>r.RemoteAddr\<close> and \<open>r.Proto\<close>.
\<close>

record request =
  Method :: string
  Path :: string
  RawQuery :: string
  Header :: header
  RemoteAddr :: string
  Proto :: string

text \<open>\<open>r.URL.Query()\<close> parses \<open>RawQuery\<close> and drops the error.\<close>

definition URL_Query :: "request \<Rightarrow> Values" where
  "URL_Query r = ParseQuery (RawQuery r)"

text \<open>
  An \<open>http.HandlerFunc\<close> gets the wrapper and the request, both by reference, so it
  may change both.  Any function of the two is admitted as a handler.
\<close>

type_synonym handlerFunc = "responseWriter \<Rightarrow> request \<Rightarrow> responseWriter \<times> request"

text \<open>
  A compiled \<open>*regexp.Regexp\<close> is used through \<open>MatchString\<close> and
  \<open>FindStringSubmatch\<close> only.  It is modelled by what the latter returns on a string:
  \<open>None\<close> for Go's \<open>nil\<close> (no match), else the text of the leftmost match
  (\<open>matches[0]\<close>) and the texts of the capture groups (\<open>matches[1:]\<close>).
  \<open>MatchString\<close> is true exactly when there is a match.
\<close>

type_synonym regexp = "string \<Rightarrow> (string \<times> string list) option"

definition MatchString :: "regexp \<Rightarrow> string \<Rightarrow> bool" where
  "MatchString re s = (re s \<noteq> None)"

record Route = "method" :: string
  regex :: regexp
  params :: "nat \<rightharpoonup> string"
  handler :: handlerFunc

record RouteMux =
  routes :: "Route list"
  Logging :: bool

definition New :: RouteMux where
  "New = \<lparr>routes = [], Logging = True\<rparr>"

definition GET :: string where "GET = ''GET''"
definition HEAD :: string where "HEAD = ''HEAD''"
definition OPTIONS :: string where "OPTIONS = ''OPTIONS''"
definition PUT :: string where "PUT = ''PUT''"
definition DELETE :: string where "DELETE = ''DELETE''"
definition PATCH :: string where "PATCH = ''PATCH''"
definition POST :: string where "POST = ''POST''"

definition applicationJson :: string where "applicationJson = ''application/json''"
definition applicationXml :: string where "applicationXml = ''applicatoin/xml''"
definition textXml :: string where "textXml = ''text/xml''"

section \<open>Registration (routes.go, lines 63-148)\<close>

text \<open>
  The loop of \<open>AddRoute\<close> (lines 73-86) over the pieces of the template: a piece that
  starts with a colon is replaced by its expression (the text from the first open
  parenthesis on, or the default \<open>([^/]+)\<close>), and the piece itself, cut before that
  parenthesis, is stored in \<open>params\<close> under the running index \<open>j\<close>.
\<close>

fun AddRoute_loop :: "string list \<Rightarrow> nat \<Rightarrow> (nat \<rightharpoonup> string) \<Rightarrow> string list \<times> (nat \<rightharpoonup> string)" where
  "AddRoute_loop [] j ps = ([], ps)"
| "AddRoute_loop (part # parts) j ps =
     (if HasPrefix part '':'' then
        let (expr, part') =
              (case Index part CHR ''('' of
                 Some index \<Rightarrow> (drop index part, take index part)
               | None \<Rightarrow> (''([^/]+)'', part));
            (parts', ps') = AddRoute_loop parts (j + 1) (ps(j \<mapsto> part'))
        in (expr # parts', ps')
      else
        let (parts', ps') = AddRoute_loop parts j ps
        in (part # parts', ps'))"

datatype error = RegexError

text \<open>
  \<open>regexp.Compile\<close> is a parameter: it gives the compiled expression or fails.
  \<open>AddRoute\<close> panics when it fails (line 94), which is the result \<open>Inl RegexError\<close>;
  otherwise it gives the new route and the router with the route appended.
\<close>

definition AddRoute ::
  "(string \<Rightarrow> regexp option) \<Rightarrow> string \<Rightarrow> string \<Rightarrow> handlerFunc \<Rightarrow> RouteMux \<Rightarrow> error + Route \<times> RouteMux" where
  "AddRoute Compile meth pattern h this =
     (let parts = Split pattern CHR ''/'';
          (parts', ps) = AddRoute_loop parts 0 Map.empty;
          pattern' = Join parts' ''/''
      in case Compile pattern' of
           None \<Rightarrow> Inl RegexError
         | Some re \<Rightarrow>
             let route = \<lparr>method = meth, regex = re, params = ps, handler = h\<rparr>
             in Inr (route, this\<lparr>routes := routes this @ [route]\<rparr>))"

definition Get :: "(string \<Rightarrow> regexp option) \<Rightarrow> string \<Rightarrow> handlerFunc \<Rightarrow> RouteMux \<Rightarrow> error + Route \<times> RouteMux" where
  "Get Compile pattern h this = AddRoute Compile GET pattern h this"

definition Put :: "(string \<Rightarrow> regexp option) \<Rightarrow> string \<Rightarrow> handlerFunc \<Rightarrow> RouteMux \<Rightarrow> error + Route \<times> RouteMux" where
  "Put Compile pattern h this = AddRoute Compile PUT pattern h this"

definition Del :: "(string \<Rightarrow> regexp option) \<Rightarrow> string \<Rightarrow> handlerFunc \<Rightarrow> RouteMux \<Rightarrow> error + Route \<times> RouteMux" where
  "Del Compile pattern h this = AddRoute Compile DELETE pattern h this"

definition Patch :: "(string \<Rightarrow> regexp option) \<Rightarrow> string \<Rightarrow> handlerFunc \<Rightarrow> RouteMux \<Rightarrow> error + Route \<times> RouteMux" where
  "Patch Compile pattern h this = AddRoute Compile PATCH pattern h this"

definition Post :: "(string \<Rightarrow> regexp option) \<Rightarrow> string \<Rightarrow> handlerFunc \<Rightarrow> RouteMux \<Rightarrow> error + Route \<times> RouteMux" where
  "Post Compile pattern h this = AddRoute Compile POST pattern h this"

subsection \<open>File paths (package path/filepath, Unix)\<close>

text \<open>
  \<open>filepath.Clean\<close> by the rules of its documentation: empty elements and \<open>.\<close>
  elements go; a \<open>..\<close> element removes the element before it when that is not itself
  \<open>..\<close>; a \<open>..\<close> with nothing to remove is dropped in a rooted path and kept in a
  relative one; the empty result is \<open>.\<close>.  \<open>out\<close> holds the elements kept so far.
\<close>

fun clean_elems :: "bool \<Rightarrow> string list \<Rightarrow> string list \<Rightarrow> string list" where
  "clean_elems rooted out [] = out"
| "clean_elems rooted out (e # es) =
     (if e = [] \<or> e = ''.'' then clean_elems rooted out es
      else if e = ''..'' then
        (if out \<noteq> [] \<and> last out \<noteq> ''..'' then clean_elems rooted (butlast out) es
         else if \<not> rooted then clean_elems rooted (out @ [''..'']) es
         else clean_elems rooted out es)
      else clean_elems rooted (out @ [e]) es)"

definition filepath_Clean :: "string \<Rightarrow> string" where
  "filepath_Clean p =
     (if p = [] then ''.''
      else
        let rooted = HasPrefix p ''/'';
            out = clean_elems rooted [] (Split p CHR ''/'');
            s = (if rooted then ''/'' else []) @ Join out ''/''
        in if s = [] then ''.'' else s)"

text \<open>
  \<open>filepath.Join\<close>: leading empty elements are ignored, the rest is joined with
  slashes and cleaned; with nothing but empty elements the result is empty.
\<close>

fun filepath_Join :: "string list \<Rightarrow> string" where
  "filepath_Join [] = []"
| "filepath_Join (e # es) =
     (if e \<noteq> [] then filepath_Clean (Join (e # es) ''/'') else filepath_Join es)"

text \<open>
  \<open>Static\<close> (lines 139-148).  The file name that the installed handler computes
  (lines 144-145) is \<open>Static_path\<close>; \<open>http.ServeFile\<close>, which reads the file system,
  is a parameter that gets this name.
\<close>

definition Static_path :: "string \<Rightarrow> request \<Rightarrow> string" where
  "Static_path dir r =
     (let path = filepath_Clean (Path r)
      in filepath_Join [dir, path])"

definition Static ::
  "(string \<Rightarrow> regexp option) \<Rightarrow> (string \<Rightarrow> handlerFunc) \<Rightarrow> string \<Rightarrow> string \<Rightarrow> RouteMux
     \<Rightarrow> error + Route \<times> RouteMux" where
  "Static Compile ServeFile pattern dir this =
     AddRoute Compile GET (pattern @ ''(.+)'')
       (\<lambda>w r. ServeFile (Static_path dir r) w r) this"

section \<open>Dispatch (routes.go, lines 150-255)\<close>

text \<open>
  \<open>http.Error\<close> and \<open>http.NotFound\<close> of net/http, which act on the wrapper through
  its methods: two headers, the status, then the message and a newline as one write.
  (Since Go 1.23 \<open>http.Error\<close> also deletes a \<open>Content-Length\<close> from the header map
  first; this is left out.)
\<close>

definition http_Error :: "string \<Rightarrow> responseWriter \<Rightarrow> string \<Rightarrow> int \<Rightarrow> responseWriter" where
  "http_Error origin w msg code =
     (let w1 = rw_Header_Set ''Content-Type'' ''text/plain; charset=utf-8'' w;
          w2 = rw_Header_Set ''X-Content-Type-Options'' ''nosniff'' w1;
          w3 = rw_WriteHeader origin code w2
      in rw_Write origin (msg @ [CHR 0x0A]) w3)"

definition http_NotFound :: "string \<Rightarrow> responseWriter \<Rightarrow> responseWriter" where
  "http_NotFound origin w = http_Error origin w ''404 page not found'' 404"

text \<open>
  Lines 181-188: the captured texts are added to the parsed query under
  \<open>Route.params[i]\<close> (a missing key of a Go map reads as the empty string), and the
  query string of the request is replaced by the encoding of the result.
\<close>

definition param_name :: "(nat \<rightharpoonup> string) \<Rightarrow> nat \<Rightarrow> string" where
  "param_name ps i = (case ps i of None \<Rightarrow> [] | Some n \<Rightarrow> n)"

fun add_matches :: "(nat \<rightharpoonup> string) \<Rightarrow> nat \<Rightarrow> string list \<Rightarrow> Values \<Rightarrow> Values" where
  "add_matches ps i [] values = values"
| "add_matches ps i (m # ms) values = add_matches ps (i + 1) ms (Values_Add (param_name ps i) m values)"

definition add_url_params :: "Route \<Rightarrow> string list \<Rightarrow> request \<Rightarrow> request" where
  "add_url_params rt matches r =
     (let values = add_matches (params rt) 0 matches (URL_Query r)
      in r\<lparr>RawQuery := Encode values\<rparr>)"

text \<open>
  The scan of lines 160-194.  A route is passed over when its method differs, when the
  expression does not match the path, or when the leftmost match is not as long as the
  path; the first route that remains gets the request with the rewritten query, and the
  scan ends there.
\<close>

fun ServeHTTP_loop :: "Route list \<Rightarrow> responseWriter \<Rightarrow> request \<Rightarrow> responseWriter \<times> request" where
  "ServeHTTP_loop [] w r = (w, r)"
| "ServeHTTP_loop (rt # rts) w r =
     (if Method r \<noteq> method rt then ServeHTTP_loop rts w r
      else if \<not> MatchString (regex rt) (Path r) then ServeHTTP_loop rts w r
      else
        (case regex rt (Path r) of
           None \<Rightarrow> ServeHTTP_loop rts w r
         | Some (m0, matches) \<Rightarrow>
             if length m0 \<noteq> length (Path r) then ServeHTTP_loop rts w r
             else handler rt w (add_url_params rt matches r)))"

text \<open>
  \<open>optionsRequest\<close> (lines 221-255): the list starts with OPTIONS, every route whose
  leftmost match is as long as the path adds its method, a GET route adds HEAD as well;
  the list is sorted and joined, the status 200 is sent, and then the header
  \<open>Public\<close> is set.
\<close>

fun optionsRequest_loop :: "Route list \<Rightarrow> string \<Rightarrow> string list \<Rightarrow> string list" where
  "optionsRequest_loop [] requestPath options = options"
| "optionsRequest_loop (rt # rts) requestPath options =
     (if \<not> MatchString (regex rt) requestPath then optionsRequest_loop rts requestPath options
      else
        (case regex rt requestPath of
           None \<Rightarrow> optionsRequest_loop rts requestPath options
         | Some (m0, matches) \<Rightarrow>
             if length m0 \<noteq> length requestPath then optionsRequest_loop rts requestPath options
             else
               let options1 = options @ [method rt];
                   options2 = (if method rt = GET then options1 @ [HEAD] else options1)
               in optionsRequest_loop rts requestPath options2))"

definition optionsRequest :: "string \<Rightarrow> RouteMux \<Rightarrow> responseWriter \<Rightarrow> request \<Rightarrow> responseWriter" where
  "optionsRequest origin this w r =
     (let options = optionsRequest_loop (routes this) (Path r) [OPTIONS];
          optionsStr = Join (sort options) '', '';
          w1 = rw_WriteHeader origin 200 w
      in rw_Header_Set ''Public'' optionsStr w1)"

text \<open>
  The access-log line of lines 206-211 without its time stamp.
\<close>

record logline =
  log_addr :: string
  log_method :: string
  log_path :: string
  log_proto :: string
  log_status :: int
  log_size :: int
  log_referer :: string
  log_agent :: string

record served =
  rw :: responseWriter
  req :: request
  logged :: "logline option"

definition ServeHTTP :: "string \<Rightarrow> RouteMux \<Rightarrow> sink \<Rightarrow> request \<Rightarrow> served" where
  "ServeHTTP origin this rw0 r0 =
     (let w0 = new_responseWriter rw0;
          (w1, r) = ServeHTTP_loop (routes this) w0 r0;
          w2 = (if Method r = OPTIONS then optionsRequest origin this w1 r else w1);
          w3 = (if started w2 = False then http_NotFound origin w2 else w2)
      in \<lparr>rw = w3, req = r,
          logged =
            (if Logging this then
               Some \<lparr>log_addr = RemoteAddr r, log_method = Method r, log_path = Path r,
                     log_proto = Proto r, log_status = status w3, log_size = size_rw w3,
                     log_referer = Header_Get (Header r) ''Referer'',
                     log_agent = Header_Get (Header r) ''User-Agent''\<rparr>
             else None)\<rparr>)"

section \<open>Serialisation helpers (routes.go, lines 294-341)\<close>

text \<open>
  \<open>json.MarshalIndent\<close> and \<open>xml.Marshal\<close> are parameters: each gives the bytes or
  the text of an error.
\<close>

definition ServeJson :: "('v \<Rightarrow> string + string) \<Rightarrow> string \<Rightarrow> responseWriter \<Rightarrow> 'v \<Rightarrow> responseWriter" where
  "ServeJson marshalJson origin w v =
     (case marshalJson v of
        Inl err \<Rightarrow> http_Error origin w err 500
      | Inr content \<Rightarrow> rw_Header_Set ''Content-Type'' applicationJson (rw_Write origin content w))"

definition ServeXml :: "('v \<Rightarrow> string + string) \<Rightarrow> string \<Rightarrow> responseWriter \<Rightarrow> 'v \<Rightarrow> responseWriter" where
  "ServeXml marshalXml origin w v =
     (case marshalXml v of
        Inl err \<Rightarrow> http_Error origin w err 500
      | Inr content \<Rightarrow>
          rw_Header_Set ''Content-Type'' ''text/xml; charset=utf-8'' (rw_Write origin content w))"

definition ServeFormatted ::
  "('v \<Rightarrow> string + string) \<Rightarrow> ('v \<Rightarrow> string + string) \<Rightarrow> string \<Rightarrow> responseWriter \<Rightarrow> request \<Rightarrow> 'v
     \<Rightarrow> responseWriter" where
  "ServeFormatted marshalJson marshalXml origin w r v =
     (let accept = Header_Get (Header r) ''Accept''
      in if accept = applicationJson then ServeJson marshalJson origin w v
         else if accept = applicationXml \<or> accept = textXml then ServeXml marshalXml origin w v
         else ServeJson marshalJson origin w v)"

section \<open>A fragment of package regexp\<close>

text \<open>
  The theorems below hold for every \<open>Compile\<close>.  To run the router on concrete
  templates, this section gives one: Go's syntax restricted to literal bytes, \<open>.\<close>,
  bracket classes with ranges and negation, capturing groups, alternation and the
  greedy operators \<open>*\<close>, \<open>+\<close> and \<open>?\<close>, over ASCII text.  Everything else
  (anchors, counted repetition, non-greedy operators, flags, escapes of letters) is
  answered with \<open>None\<close>, whether Go accepts it or not, so no statement below rests on
  a template outside the fragment.

  Matching is leftmost-first, as in Go: \<open>rmatch\<close> lists the ways an expression
  matches a prefix of the text in the order a backtracking matcher tries them (first
  alternative first, one more repetition before stopping), each with the rest of the text
  and the captured groups; the head of the list at the leftmost start is the match.
\<close>

datatype re =
    Lit char
  | AnyChar
  | Class bool "(char \<times> char) list"
  | Empty
  | Cat re re
  | Alt re re
  | Star re
  | Opt re
  | Group nat re

definition in_class :: "char \<Rightarrow> (char \<times> char) list \<Rightarrow> bool" where
  "in_class c rs = list_ex (\<lambda>(lo, hi). lo \<le> c \<and> c \<le> hi) rs"

definition one_char :: "(char \<Rightarrow> bool) \<Rightarrow> string \<Rightarrow> (nat \<Rightarrow> string) \<Rightarrow> (string \<times> (nat \<Rightarrow> string)) list" where
  "one_char P s cs = (case s of [] \<Rightarrow> [] | x # xs \<Rightarrow> if P x then [(xs, cs)] else [])"

fun rmatch :: "re \<Rightarrow> string \<Rightarrow> (nat \<Rightarrow> string) \<Rightarrow> (string \<times> (nat \<Rightarrow> string)) list" where
  "rmatch (Lit c) s cs = one_char (\<lambda>x. x = c) s cs"
| "rmatch AnyChar s cs = one_char (\<lambda>x. x \<noteq> CHR 0x0A) s cs"
| "rmatch (Class neg rs) s cs = one_char (\<lambda>x. in_class x rs \<noteq> neg) s cs"
| "rmatch Empty s cs = [(s, cs)]"
| "rmatch (Cat a b) s cs = concat (map (\<lambda>(s', cs'). rmatch b s' cs') (rmatch a s cs))"
| "rmatch (Alt a b) s cs = rmatch a s cs @ rmatch b s cs"
| "rmatch (Star a) s cs =
     concat (map (\<lambda>(s', cs'). if length s' < length s then rmatch (Star a) s' cs' else [])
                 (rmatch a s cs)) @ [(s, cs)]"
| "rmatch (Opt a) s cs = rmatch a s cs @ [(s, cs)]"
| "rmatch (Group n a) s cs =
     map (\<lambda>(s', cs'). (s', cs'(n := take (length s - length s') s))) (rmatch a s cs)"

text \<open>
  \<open>FindStringSubmatch\<close>: the first start position with a match; a group that took no
  part in the match reads as the empty string.
\<close>

fun FindStringSubmatch :: "re \<Rightarrow> nat \<Rightarrow> string \<Rightarrow> (string \<times> string list) option" where
  "FindStringSubmatch r n s =
     (case rmatch r s (\<lambda>_. []) of
        (s', cs) # _ \<Rightarrow> Some (take (length s - length s') s, map cs [0..<n])
      | [] \<Rightarrow> (case s of [] \<Rightarrow> None | _ # xs \<Rightarrow> FindStringSubmatch r n xs))"

text \<open>
  The parser keeps a stack of open groups; a frame holds the number of its group, the
  alternatives finished so far and the pieces of the current one, both newest first.
\<close>

datatype frame = Frame nat "re list" "re list"

fun seq_of :: "re list \<Rightarrow> re" where
  "seq_of [] = Empty"
| "seq_of [x] = x"
| "seq_of (x # y # ys) = Cat (seq_of (y # ys)) x"

fun alt_of :: "re list \<Rightarrow> re" where
  "alt_of [] = Empty"
| "alt_of [x] = x"
| "alt_of (x # y # ys) = Alt (alt_of (y # ys)) x"

definition close_frame :: "re list \<Rightarrow> re list \<Rightarrow> re" where
  "close_frame alts cur = alt_of (seq_of cur # alts)"

definition push_re :: "re \<Rightarrow> frame list \<Rightarrow> frame list" where
  "push_re x st = (case st of [] \<Rightarrow> [] | Frame g alts cur # st' \<Rightarrow> Frame g alts (x # cur) # st')"

definition is_rep :: "char \<Rightarrow> bool" where
  "is_rep c = (c = CHR ''*'' \<or> c = CHR ''+'' \<or> c = CHR ''?'')"

definition rep_of :: "char \<Rightarrow> re \<Rightarrow> re" where
  "rep_of c x = (if c = CHR ''*'' then Star x else if c = CHR ''+'' then Cat x (Star x) else Opt x)"

definition is_word :: "char \<Rightarrow> bool" where
  "is_word c = ((CHR ''a'' \<le> c \<and> c \<le> CHR ''z'') \<or> (CHR ''A'' \<le> c \<and> c \<le> CHR ''Z'')
     \<or> (CHR ''0'' \<le> c \<and> c \<le> CHR ''9'') \<or> c = CHR ''_'')"

fun parse :: "frame list \<Rightarrow> nat \<Rightarrow> string \<Rightarrow> (re \<times> nat) option"
  and parse_class :: "frame list \<Rightarrow> nat \<Rightarrow> bool \<Rightarrow> (char \<times> char) list \<Rightarrow> string \<Rightarrow> (re \<times> nat) option" where
  "parse st n [] = (case st of [Frame g alts cur] \<Rightarrow> Some (close_frame alts cur, n) | _ \<Rightarrow> None)"
| "parse st n (c # cs) =
     (if c = CHR ''('' then
        (case cs of
           [] \<Rightarrow> None
         | d # _ \<Rightarrow> if d = CHR ''?'' then None else parse (Frame n [] [] # st) (n + 1) cs)
      else if c = CHR '')'' then
        (case st of
           Frame g alts cur # Frame g' alts' cur' # st' \<Rightarrow>
             parse (Frame g' alts' (Group g (close_frame alts cur) # cur') # st') n cs
         | _ \<Rightarrow> None)
      else if c = CHR ''|'' then
        (case st of
           Frame g alts cur # st' \<Rightarrow> parse (Frame g (seq_of cur # alts) [] # st') n cs
         | [] \<Rightarrow> None)
      else if is_rep c then
        (case st of
           Frame g alts (x # cur) # st' \<Rightarrow>
             (case cs of
                [] \<Rightarrow> parse (Frame g alts (rep_of c x # cur) # st') n cs
              | d # _ \<Rightarrow>
                  if is_rep d then None
                  else parse (Frame g alts (rep_of c x # cur) # st') n cs)
         | _ \<Rightarrow> None)
      else if c = CHR ''['' then
        (case cs of
           [] \<Rightarrow> None
         | d # cs' \<Rightarrow>
             if d = CHR ''^'' then parse_class st n True [] cs'
             else parse_class st n False [] cs)
      else if c = CHR ''.'' then parse (push_re AnyChar st) n cs
      else if c = CHR 0x5C then
        (case cs of
           [] \<Rightarrow> None
         | e # cs' \<Rightarrow> if is_word e \<or> CHR 0x7F \<le> e then None else parse (push_re (Lit e) st) n cs')
      else if c = CHR ''^'' \<or> c = CHR ''$'' \<or> c = CHR ''{'' then None
      else parse (push_re (Lit c) st) n cs)"
| "parse_class st n neg rs [] = None"
| "parse_class st n neg rs (c # cs) =
     (if c = CHR '']'' \<and> rs \<noteq> [] then parse (push_re (Class neg (rev rs)) st) n cs
      else if c = CHR 0x5C \<or> c = CHR ''['' then None
      else
        (case cs of
           d # e # cs' \<Rightarrow>
             if d = CHR ''-'' \<and> e \<noteq> CHR '']'' then
               (if e = CHR 0x5C \<or> e = CHR ''['' \<or> e < c then None
                else parse_class st n neg ((c, e) # rs) cs')
             else parse_class st n neg ((c, c) # rs) cs
         | _ \<Rightarrow> parse_class st n neg ((c, c) # rs) cs))"

definition regexp_Compile :: "string \<Rightarrow> regexp option" where
  "regexp_Compile expr =
     (case parse [Frame 0 [] []] 0 expr of
        None \<Rightarrow> None
      | Some (r, n) \<Rightarrow> Some (FindStringSubmatch r n))"

section \<open>Notions used in the statements\<close>

text \<open>
  The test that both scans apply to a route and a path (lines 169-179 and 232-242):
  the expression matches and its leftmost match is as long as the path.
\<close>

definition route_matches :: "Route \<Rightarrow> string \<Rightarrow> bool" where
  "route_matches rt path =
     (case regex rt path of None \<Rightarrow> False | Some (m0, matches) \<Rightarrow> length m0 = length path)"

text \<open>The dispatch scan also asks for the request's method (line 164).\<close>

definition route_serves :: "Route \<Rightarrow> request \<Rightarrow> bool" where
  "route_serves rt r = (Method r = method rt \<and> route_matches rt (Path r))"

text \<open>Handlers and requests for the concrete runs.\<close>

definition request_of :: "string \<Rightarrow> string \<Rightarrow> string \<Rightarrow> request" where
  "request_of m p q =
     \<lparr>Method = m, Path = p, RawQuery = q, Header = Map.empty, RemoteAddr = [], Proto = ''HTTP/1.1''\<rparr>"

definition echo_param :: "string \<Rightarrow> handlerFunc" where
  "echo_param key w r = (rw_Write ''*'' (Values_Get (URL_Query r) key) w, r)"

definition echo_query :: handlerFunc where
  "echo_query w r = (rw_Write ''*'' (RawQuery r) w, r)"

definition say :: "string \<Rightarrow> handlerFunc" where
  "say text w r = (rw_Write ''*'' text w, r)"

text \<open>The router after a list of registrations; a failed registration leaves it as it was.\<close>

definition register :: "string \<Rightarrow> string \<Rightarrow> handlerFunc \<Rightarrow> RouteMux \<Rightarrow> RouteMux" where
  "register meth pattern h this =
     (case AddRoute regexp_Compile meth pattern h this of Inl e \<Rightarrow> this | Inr (rt, this') \<Rightarrow> this')"

text \<open>
  The template as \<open>AddRoute\<close> reads it: the pieces that start with a colon, the name
  kept for such a piece (its text before the first open parenthesis, colon included) and
  the expression that takes its place in the compiled pattern.
\<close>

definition param_segments :: "string \<Rightarrow> string list" where
  "param_segments pattern = filter (\<lambda>p. HasPrefix p '':'') (Split pattern CHR ''/'')"

definition segment_name :: "string \<Rightarrow> string" where
  "segment_name seg = takeWhile (\<lambda>c. c \<noteq> CHR ''('') seg"

definition segment_expr :: "string \<Rightarrow> string" where
  "segment_expr part =
     (if HasPrefix part '':'' then
        (if CHR ''('' \<in> set part then dropWhile (\<lambda>c. c \<noteq> CHR ''('') part else ''([^/]+)'')
      else part)"

text \<open>
  Containment of file names.  The elements of a path are its pieces between slashes,
  without the empty ones and the dots; a path lies within a root when both are rooted or
  both are relative, the elements of the root begin those of the path, and no \<open>..\<close>
  follows them.
\<close>

definition path_elems :: "string \<Rightarrow> string list" where
  "path_elems p = filter (\<lambda>e. e \<noteq> [] \<and> e \<noteq> ''.'') (Split p CHR ''/'')"

definition is_rooted :: "string \<Rightarrow> bool" where
  "is_rooted p = HasPrefix p ''/''"

text \<open>
  The URL paths that a net/http server hands to a handler: a path that starts with a
  slash, the empty path, or the star of \<open>OPTIONS *\<close>.
\<close>

definition request_path :: "string \<Rightarrow> bool" where
  "request_path p = (is_rooted p \<or> p = [] \<or> p = ''*'')"

definition within_root :: "string \<Rightarrow> string \<Rightarrow> bool" where
  "within_root root p =
     (is_rooted p = is_rooted root \<and> prefix (path_elems root) (path_elems p) \<and>
      ''..'' \<notin> set (drop (length (path_elems root)) (path_elems p)))"

text \<open>
  Notions of the proofs: what \<open>filepath.Clean\<close> makes of the elements it kept, and
  the two kinds of elements it can keep.
\<close>

definition render :: "bool \<Rightarrow> string list \<Rightarrow> string" where
  "render rd out = (let s = (if rd then ''/'' else []) @ Join out ''/'' in if s = [] then ''.'' else s)"

definition plain :: "string \<Rightarrow> bool" where
  "plain e = (e \<noteq> [] \<and> e \<noteq> ''.'' \<and> e \<noteq> ''..'' \<and> CHR ''/'' \<notin> set e)"

definition okel :: "string \<Rightarrow> bool" where
  "okel e = (e \<noteq> [] \<and> e \<noteq> ''.'' \<and> CHR ''/'' \<notin> set e)"

text \<open>
  Notions of the proofs about query strings: what one round of the loop of
  \<open>parseQuery\<close> does with a piece, the pairs that \<open>Encode\<close> writes, in its order,
  the text of a pair, and one step of its buffer.
\<close>

definition parse_piece :: "Values \<Rightarrow> string \<Rightarrow> Values" where
  "parse_piece m key =
     (if Contains key CHR '';'' then m
      else if key = [] then m
      else
        let (k, v) = Cut key CHR ''='' in
        (case QueryUnescape k of
           None \<Rightarrow> m
         | Some k' \<Rightarrow> (case QueryUnescape v of None \<Rightarrow> m | Some v' \<Rightarrow> Values_Add k' v' m)))"

definition pairs_of :: "Values \<Rightarrow> (string \<times> string) list" where
  "pairs_of v = concat (map (\<lambda>k. map (Pair k) (Values_lookup v k)) (sort (map fst v)))"

definition piece :: "string \<times> string \<Rightarrow> string" where
  "piece p = QueryEscape (fst p) @ CHR ''='' # QueryEscape (snd p)"

definition add_piece :: "string \<Rightarrow> string \<Rightarrow> string" where
  "add_piece buf p = (if buf \<noteq> [] then buf @ ''&'' else buf) @ p"

text \<open>
  What \<open>optionsRequest\<close> collects for a path, in the order of collection: OPTIONS,
  then for every matching route its method, followed by HEAD when the method is GET.
\<close>

definition allowed_methods :: "Route list \<Rightarrow> string \<Rightarrow> string list" where
  "allowed_methods rs p =
     OPTIONS # concat (map (\<lambda>rt. if method rt = GET then [method rt, HEAD] else [method rt])
                           (filter (\<lambda>rt. route_matches rt p) rs))"

text \<open>
  The value of the \<open>Public\<close> header in the words of the specification: the collected
  methods as a set, without duplicates, sorted and joined.
\<close>

definition Public_spec :: "Route list \<Rightarrow> string \<Rightarrow> string" where
  "Public_spec rs p = Join (sort (remdups (allowed_methods rs p))) '', ''"

text \<open>Routers and requests of the concrete runs.\<close>

definition users_mux :: RouteMux where
  "users_mux =
     register GET ''/user/:name'' (say ''by name'')
       (register GET ''/user/:id([0-9]+)'' (echo_param '':id'') New)"

definition about_mux :: RouteMux where
  "about_mux = register GET ''/about'' echo_query New"

definition prefix_mux :: RouteMux where
  "prefix_mux = register GET ''/user'' (say ''prefix'') New"

definition get_user_42 :: request where
  "get_user_42 = request_of GET ''/user/42'' []"

definition options_user_42 :: request where
  "options_user_42 = request_of OPTIONS ''/user/42'' []"

definition options_about :: request where
  "options_about = request_of OPTIONS ''/about'' []"

definition options_nothing :: request where
  "options_nothing = request_of OPTIONS ''/nothing'' []"

definition get_about :: request where
  "get_about = request_of GET ''/about'' ''b=%41&a=x+y''"

definition user_id_mux :: RouteMux where
  "user_id_mux = register GET ''/user/:id([0-9]+)'' (echo_param '':id'') New"

definition user_id_plain_mux :: RouteMux where
  "user_id_plain_mux = register GET ''/user/:id([0-9]+)'' (echo_param ''id'') New"

definition get_user_abc :: request where
  "get_user_abc = request_of GET ''/user/abc'' []"

definition two_groups_mux :: RouteMux where
  "two_groups_mux = register GET ''/:x(a)(b)'' (echo_param '':x'') New"

definition get_ab :: request where
  "get_ab = request_of GET ''/ab'' []"

definition name_first_mux :: RouteMux where
  "name_first_mux =
     register GET ''/user/:id([0-9]+)'' (echo_param '':id'')
       (register GET ''/user/:name'' (echo_param '':id'') New)"

definition options_user_abc :: request where
  "options_user_abc = request_of OPTIONS ''/user/abc'' []"

definition post_user_42 :: request where
  "post_user_42 = request_of POST ''/user/42'' []"

text \<open>
  Static routes.  \<open>http.ServeFile\<close> is not modelled; \<open>say\<close> takes the place of the
  parameter \<open>ServeFile\<close> of \<open>Static\<close> and shows the file name that is handed over.
\<close>

definition register_static :: "string \<Rightarrow> string \<Rightarrow> RouteMux \<Rightarrow> RouteMux" where
  "register_static pattern dir this =
     (case Static regexp_Compile say pattern dir this of Inl e \<Rightarrow> this | Inr (rt, this') \<Rightarrow> this')"

definition files_mux :: RouteMux where
  "files_mux = register_static ''/files/'' ''/srv/public'' New"

definition root_files_mux :: RouteMux where
  "root_files_mux = register_static ''/'' [] New"

definition get_traversal :: request where
  "get_traversal = request_of GET ''/files/../../etc/passwd'' []"

definition get_etc_passwd :: request where
  "get_etc_passwd = request_of GET ''/etc/passwd'' []"

section \<open>The response wrapper and its headers\<close>

text \<open>
  C6.  On a fresh wrapper, \<open>Write(p)\<close> records the size, sets \<open>started\<close> and sets
  both headers before it delegates, so the sink sends them with status 200 and the
  body.  \<open>WriteHeader(c)\<close> records the status and sets \<open>started\<close>, but it delegates
  first and sets the two headers afterwards: they are in the header map, and they are not
  among the headers that the sink took from the map and sent with the status.
\<close>

theorem WriteHeader_sets_headers_after_sending:
  "(let w' = rw_Write origin p (new_responseWriter new_sink) in
      size_rw w' = int (length p) \<and> started w' \<and>
      sent_status (writer w') = 200 \<and> body (writer w') = p \<and>
      sent_hdr (writer w') ''Content-Length'' = Some [Itoa_nat (length p)] \<and>
      sent_hdr (writer w') ''Access-Control-Allow-Origin'' = Some [origin]) \<and>
   (let w' = rw_WriteHeader origin c (new_responseWriter new_sink) in
      status w' = c \<and> started w' \<and> sent_status (writer w') = c \<and>
      hdr (writer w') ''Content-Length'' = Some [''0''] \<and>
      hdr (writer w') ''Access-Control-Allow-Origin'' = Some [origin] \<and>
      sent_hdr (writer w') ''Content-Length'' = None \<and>
      sent_hdr (writer w') ''Access-Control-Allow-Origin'' = None)"
  by (simp add: rw_Write_def rw_WriteHeader_def rw_Header_Set_def Header_Set_def
      new_responseWriter_def new_sink_def sink_Write_def sink_WriteHeader_def Let_def)

section \<open>Content negotiation\<close>

text \<open>
  C8.  \<open>ServeFormatted\<close> compares the Accept header with the constant
  \<open>applicationXml\<close>, which is spelled \<open>applicatoin/xml\<close>: a request that accepts
  \<open>application/xml\<close> falls to the default and is answered in JSON, while
  \<open>text/xml\<close> is answered in XML and \<open>application/json\<close> in JSON.  \<open>ServeXml\<close>
  sets the content type after it wrote the body, so on a fresh wrapper the header is in
  the header map and not among the headers that the sink took from the map and sent.
\<close>

theorem ServeFormatted_application_xml_is_json:
  "ServeFormatted marshalJson marshalXml origin w
     (r\<lparr>Header := (Header r)(''Accept'' \<mapsto> [''application/xml''])\<rparr>) v
     = ServeJson marshalJson origin w v \<and>
   ServeFormatted marshalJson marshalXml origin w
     (r\<lparr>Header := (Header r)(''Accept'' \<mapsto> [''text/xml''])\<rparr>) v
     = ServeXml marshalXml origin w v \<and>
   ServeFormatted marshalJson marshalXml origin w
     (r\<lparr>Header := (Header r)(''Accept'' \<mapsto> [''application/json''])\<rparr>) v
     = ServeJson marshalJson origin w v \<and>
   hdr (writer (ServeXml (\<lambda>v. Inr content) origin (new_responseWriter new_sink) v)) ''Content-Type''
     = Some [''text/xml; charset=utf-8''] \<and>
   sent_hdr (writer (ServeXml (\<lambda>v. Inr content) origin (new_responseWriter new_sink) v))
     ''Content-Type'' = None"
  by (simp add: ServeFormatted_def Header_Get_def applicationJson_def applicationXml_def
      textXml_def ServeXml_def rw_Write_def rw_Header_Set_def Header_Set_def sink_Write_def
      sink_WriteHeader_def new_responseWriter_def new_sink_def Let_def)

section \<open>Dispatch never leaves a request unanswered\<close>

lemma started_optionsRequest: "started (optionsRequest origin this w r)"
  by (simp add: optionsRequest_def Let_def rw_WriteHeader_def rw_Header_Set_def)

lemma started_http_NotFound: "started (http_NotFound origin w)"
  by (simp add: http_NotFound_def http_Error_def rw_Write_def rw_Header_Set_def Let_def)

text \<open>
  C3.  After \<open>ServeHTTP\<close> the wrapper's \<open>started\<close> flag is true, for every router,
  sink and request and whatever the handlers do.  When the scan leaves the wrapper
  unstarted and the request is not an OPTIONS request, the result is the not-found
  response on that wrapper.
\<close>

theorem ServeHTTP_started:
  "started (rw (ServeHTTP origin this rw0 r0)) \<and>
   (ServeHTTP_loop (routes this) (new_responseWriter rw0) r0 = (w1, r) \<longrightarrow>
    Method r \<noteq> OPTIONS \<longrightarrow> \<not> started w1 \<longrightarrow>
    rw (ServeHTTP origin this rw0 r0) = http_NotFound origin w1)"
  by (simp add: ServeHTTP_def Let_def started_optionsRequest started_http_NotFound
      split: prod.splits)

theorem ServeHTTP_started_witness:
  "started (rw (ServeHTTP ''*'' New new_sink (request_of ''GET'' ''/nothing'' []))) \<and>
   sent_status (writer (rw (ServeHTTP ''*'' New new_sink (request_of ''GET'' ''/nothing'' [])))) = 404 \<and>
   body (writer (rw (ServeHTTP ''*'' New new_sink (request_of ''GET'' ''/nothing'' []))))
     = ''404 page not found'' @ [CHR 0x0A]"
  using ServeHTTP_started [of "''*''" New new_sink "request_of ''GET'' ''/nothing'' []"
      "new_responseWriter new_sink" "request_of ''GET'' ''/nothing'' []"]
  by (simp add: New_def request_of_def OPTIONS_def new_responseWriter_def http_NotFound_def
      http_Error_def rw_Write_def rw_WriteHeader_def rw_Header_Set_def sink_Write_def
      sink_WriteHeader_def new_sink_def Let_def)

section \<open>The dispatch scan\<close>

lemma loop_skip: "\<not> route_serves rt r \<Longrightarrow> ServeHTTP_loop (rt # rts) w r = ServeHTTP_loop rts w r"
  by (auto simp: route_serves_def route_matches_def MatchString_def split: option.splits)

lemma loop_hit:
  "route_serves rt r \<Longrightarrow> regex rt (Path r) = Some (m0, ms) \<Longrightarrow>
   ServeHTTP_loop (rt # rts) w r = handler rt w (add_url_params rt ms r)"
  by (auto simp: route_serves_def route_matches_def MatchString_def split: option.splits)

lemma loop_first:
  "i < length rs \<Longrightarrow> route_serves (rs ! i) r \<Longrightarrow> \<forall>j<i. \<not> route_serves (rs ! j) r \<Longrightarrow>
   regex (rs ! i) (Path r) = Some (m0, ms) \<Longrightarrow>
   ServeHTTP_loop rs w r = handler (rs ! i) w (add_url_params (rs ! i) ms r)"
proof (induction rs arbitrary: i)
  case Nil
  then show ?case by simp
next
  case (Cons rt rts)
  show ?case
  proof (cases i)
    case 0
    with Cons.prems show ?thesis using loop_hit [of rt r m0 ms rts w] by simp
  next
    case (Suc k)
    with Cons.prems have skip: "\<not> route_serves rt r" by auto
    have "\<forall>j<k. \<not> route_serves (rts ! j) r"
      using Cons.prems(3) Suc by auto
    with Cons.IH [of k] Cons.prems Suc
    have "ServeHTTP_loop rts w r = handler (rts ! k) w (add_url_params (rts ! k) ms r)" by simp
    with loop_skip [OF skip, of rts w] Suc show ?thesis by simp
  qed
qed

lemma loop_none: "\<forall>rt\<in>set rs. \<not> route_serves rt r \<Longrightarrow> ServeHTTP_loop rs w r = (w, r)"
  by (induction rs) (simp_all add: loop_skip del: ServeHTTP_loop.simps(2))

lemma loop_filter:
  "ServeHTTP_loop rs w r = ServeHTTP_loop (filter (\<lambda>rt. route_matches rt (Path r)) rs) w r"
proof (induction rs)
  case Nil
  show ?case by simp
next
  case (Cons rt rts)
  show ?case
  proof (cases "route_matches rt (Path r)")
    case True
    then show ?thesis
      using Cons by (auto simp: route_matches_def MatchString_def split: option.splits)
  next
    case False
    then have "\<not> route_serves rt r" by (simp add: route_serves_def)
    then show ?thesis
      using Cons False by (simp add: loop_skip del: ServeHTTP_loop.simps(2))
  qed
qed

lemma options_loop:
  "optionsRequest_loop rs p opts =
     opts @ concat (map (\<lambda>rt. if method rt = GET then [method rt, HEAD] else [method rt])
                       (filter (\<lambda>rt. route_matches rt p) rs))"
  by (induction rs arbitrary: opts)
     (auto simp: route_matches_def MatchString_def Let_def split: option.splits)

text \<open>
  C2.  When the route at position \<open>i\<close> has the request's method and matches the whole
  path, and no route before it does, the scan is the call of that route's handler on the
  request with the rewritten query, and nothing else: routes after \<open>i\<close> that would
  serve the request as well have no part in the result, which is the one a router holding
  the route \<open>i\<close> alone gives.  The equation holds for all handlers.
\<close>

theorem first_registered_route_wins:
  assumes "i < length rs" and "route_serves (rs ! i) r"
    and "\<forall>j<i. \<not> route_serves (rs ! j) r"
    and "regex (rs ! i) (Path r) = Some (m0, ms)"
  shows "ServeHTTP_loop rs w r = handler (rs ! i) w (add_url_params (rs ! i) ms r) \<and>
         ServeHTTP_loop rs w r = ServeHTTP_loop [rs ! i] w r"
  using loop_first [OF assms] loop_hit [OF assms(2) assms(4), of "[]" w] by simp

theorem first_registered_route_wins_witness:
  "route_serves (routes users_mux ! 0) get_user_42 \<and>
   route_serves (routes users_mux ! 1) get_user_42 \<and>
   body (writer (fst (ServeHTTP_loop (routes users_mux) (new_responseWriter new_sink) get_user_42)))
     = ''42''"
proof -
  have h1: "0 < length (routes users_mux)" by code_simp
  have h2: "route_serves (routes users_mux ! 0) get_user_42" by code_simp
  have h2': "route_serves (routes users_mux ! 1) get_user_42" by code_simp
  have h3: "\<forall>j<0::nat. \<not> route_serves (routes users_mux ! j) get_user_42" by simp
  have h4: "regex (routes users_mux ! 0) (Path get_user_42) = Some (''/user/42'', [''42''])"
    by code_simp
  have h5: "body (writer (fst (handler (routes users_mux ! 0) (new_responseWriter new_sink)
      (add_url_params (routes users_mux ! 0) [''42''] get_user_42)))) = ''42''"
    by code_simp
  from first_registered_route_wins [OF h1 h2 h3 h4, of "new_responseWriter new_sink"] h5 h2 h2'
  show ?thesis by simp
qed

section \<open>Partial matches\<close>

text \<open>
  C7.  A route whose expression matches the path only in part (the leftmost match
  \<open>m0\<close> leaves a non-empty rest before or after it) counts as not matching: in the
  dispatch scan and in the OPTIONS scan alike, the router behaves as if the route were
  not registered.
\<close>

theorem partial_match_is_rejected:
  assumes "regex rt (Path r) = Some (m0, ms)" and "Path r = pre @ m0 @ suf"
    and "pre \<noteq> [] \<or> suf \<noteq> []"
  shows "\<not> route_matches rt (Path r) \<and>
         ServeHTTP_loop (rs1 @ rt # rs2) w r = ServeHTTP_loop (rs1 @ rs2) w r \<and>
         optionsRequest_loop (rs1 @ rt # rs2) (Path r) opts
           = optionsRequest_loop (rs1 @ rs2) (Path r) opts"
proof -
  have no: "\<not> route_matches rt (Path r)"
    using assms by (auto simp: route_matches_def)
  have "ServeHTTP_loop (rs1 @ rt # rs2) w r
        = ServeHTTP_loop (filter (\<lambda>rt. route_matches rt (Path r)) (rs1 @ rt # rs2)) w r"
    by (rule loop_filter)
  also have "\<dots> = ServeHTTP_loop (filter (\<lambda>rt. route_matches rt (Path r)) (rs1 @ rs2)) w r"
    using no by simp
  also have "\<dots> = ServeHTTP_loop (rs1 @ rs2) w r"
    by (rule loop_filter [symmetric])
  finally have a: "ServeHTTP_loop (rs1 @ rt # rs2) w r = ServeHTTP_loop (rs1 @ rs2) w r" .
  have b: "optionsRequest_loop (rs1 @ rt # rs2) (Path r) opts
           = optionsRequest_loop (rs1 @ rs2) (Path r) opts"
    using no by (simp add: options_loop)
  from no a b show ?thesis by simp
qed

theorem partial_match_is_rejected_witness:
  "regex (routes prefix_mux ! 0) ''/user/42'' = Some (''/user'', []) \<and>
   ServeHTTP_loop (routes prefix_mux) (new_responseWriter new_sink) get_user_42
     = (new_responseWriter new_sink, get_user_42) \<and>
   optionsRequest_loop (routes prefix_mux) ''/user/42'' [OPTIONS] = [OPTIONS]"
proof -
  have len: "length (routes prefix_mux) = 1" by code_simp
  have h0: "[] @ (routes prefix_mux ! 0) # [] = routes prefix_mux"
    using len by (cases "routes prefix_mux") auto
  have h1: "regex (routes prefix_mux ! 0) (Path get_user_42) = Some (''/user'', [])"
    by code_simp
  have h2: "Path get_user_42 = [] @ ''/user'' @ ''/42''" by code_simp
  have h3: "[] \<noteq> ([]::string) \<or> ''/42'' \<noteq> []" by simp
  have h4: "Path get_user_42 = ''/user/42''" by code_simp
  note T = partial_match_is_rejected [OF h1 h2 h3, of "[]" "[]" "new_responseWriter new_sink"
      "[OPTIONS]"]
  from T have "ServeHTTP_loop ([] @ (routes prefix_mux ! 0) # []) (new_responseWriter new_sink)
      get_user_42 = ServeHTTP_loop ([] @ []) (new_responseWriter new_sink) get_user_42"
    by blast
  then have a: "ServeHTTP_loop (routes prefix_mux) (new_responseWriter new_sink) get_user_42
     = (new_responseWriter new_sink, get_user_42)"
    unfolding h0 by simp
  from T have "optionsRequest_loop ([] @ (routes prefix_mux ! 0) # []) (Path get_user_42) [OPTIONS]
     = optionsRequest_loop ([] @ []) (Path get_user_42) [OPTIONS]"
    by blast
  then have b: "optionsRequest_loop (routes prefix_mux) ''/user/42'' [OPTIONS] = [OPTIONS]"
    unfolding h0 h4 by simp
  from a b h1 h4 show ?thesis by simp
qed

section \<open>The OPTIONS answer\<close>

lemma sort_options_get_head: "sort [OPTIONS, GET, HEAD] = [GET, HEAD, OPTIONS]"
  by code_simp

lemma join_get_head_options: "Join [GET, HEAD, OPTIONS] '', '' = ''GET, HEAD, OPTIONS''"
  by code_simp

lemma public_header:
  "ServeHTTP_loop (routes this) (new_responseWriter rw0) r0 = (w1, r) \<Longrightarrow> Method r = OPTIONS \<Longrightarrow>
   hdr (writer (rw (ServeHTTP origin this rw0 r0))) ''Public''
     = Some [Join (sort (allowed_methods (routes this) (Path r))) '', '']"
  by (simp add: ServeHTTP_def Let_def started_optionsRequest allowed_methods_def options_loop)
     (simp add: optionsRequest_def Let_def rw_Header_Set_def Header_Set_def options_loop)

text \<open>
  C4, as the code has it.  For a request whose method is OPTIONS when the scan is over
  (\<open>r\<close> is the request as a matched handler, if any, left it), the header map of the
  response holds under \<open>Public\<close> the collected methods, sorted and joined with a comma
  and a space: OPTIONS, and for every route that matches the whole path, whatever its
  method, that method and HEAD after a GET.  The list keeps one entry per matching route:
  nothing removes duplicates.  With a single GET route that matches, the value is
  \<open>GET, HEAD, OPTIONS\<close>.
\<close>

theorem Public_header_sorted_methods:
  "(ServeHTTP_loop (routes this) (new_responseWriter rw0) r0 = (w1, r) \<longrightarrow>
    Method r = OPTIONS \<longrightarrow>
      hdr (writer (rw (ServeHTTP origin this rw0 r0))) ''Public''
        = Some [Join (sort (allowed_methods (routes this) (Path r))) '', '']) \<and>
   (routes this = [rt] \<longrightarrow> method rt = GET \<longrightarrow> route_matches rt (Path r0) \<longrightarrow>
    Method r0 = OPTIONS \<longrightarrow>
      hdr (writer (rw (ServeHTTP origin this rw0 r0))) ''Public''
        = Some [''GET, HEAD, OPTIONS''])"
proof (intro conjI impI)
  assume "ServeHTTP_loop (routes this) (new_responseWriter rw0) r0 = (w1, r)"
    and "Method r = OPTIONS"
  then show "hdr (writer (rw (ServeHTTP origin this rw0 r0))) ''Public''
        = Some [Join (sort (allowed_methods (routes this) (Path r))) '', '']"
    by (rule public_header)
next
  assume a: "routes this = [rt]" "method rt = GET" "route_matches rt (Path r0)"
    "Method r0 = OPTIONS"
  then have "\<not> route_serves rt r0"
    by (simp add: route_serves_def GET_def OPTIONS_def)
  then have l: "ServeHTTP_loop (routes this) (new_responseWriter rw0) r0
      = (new_responseWriter rw0, r0)"
    using a(1) loop_none [of "[rt]" r0] by simp
  have "allowed_methods (routes this) (Path r0) = [OPTIONS, GET, HEAD]"
    using a by (simp add: allowed_methods_def)
  with public_header [OF l a(4), of origin]
  show "hdr (writer (rw (ServeHTTP origin this rw0 r0))) ''Public'' = Some [''GET, HEAD, OPTIONS'']"
    by (simp only: sort_options_get_head join_get_head_options)
qed

theorem Public_header_sorted_methods_witness:
  "hdr (writer (rw (ServeHTTP ''*'' about_mux new_sink options_about))) ''Public''
     = Some [''GET, HEAD, OPTIONS'']"
proof -
  have len: "length (routes about_mux) = 1" by code_simp
  have h0: "routes about_mux = [routes about_mux ! 0]"
    using len by (cases "routes about_mux") auto
  have h1: "method (routes about_mux ! 0) = GET" by code_simp
  have h2: "route_matches (routes about_mux ! 0) (Path options_about)" by code_simp
  have h3: "Method options_about = OPTIONS" by code_simp
  from Public_header_sorted_methods
         [of about_mux new_sink options_about _ _ "''*''" "routes about_mux ! 0"] h0 h1 h2 h3
  show ?thesis by blast
qed

text \<open>
  The claim as stated fails where two routes with the same method match one path: both
  GET routes of \<open>users_mux\<close> match \<open>/user/42\<close>, and the header lists GET and HEAD
  twice, which is not the deduplicated value.
\<close>

theorem Public_header_keeps_duplicates:
  "Header_Get (hdr (writer (rw (ServeHTTP ''*'' users_mux new_sink options_user_42)))) ''Public''
     = ''GET, GET, HEAD, HEAD, OPTIONS'' \<and>
   Public_spec (routes users_mux) (Path options_user_42) = ''GET, HEAD, OPTIONS'' \<and>
   Header_Get (hdr (writer (rw (ServeHTTP ''*'' users_mux new_sink options_user_42)))) ''Public''
     \<noteq> Public_spec (routes users_mux) (Path options_user_42)"
  by code_simp

text \<open>
  C5.  An OPTIONS request on a fresh sink whose path no route matches: the status 200 is
  sent and the body stays empty, and the header map ends with \<open>Public: OPTIONS\<close>; but
  \<open>optionsRequest\<close> sets the header after \<open>WriteHeader\<close> (lines 253-254), so the
  headers that went out with the status do not hold \<open>Public\<close>.
\<close>

theorem options_without_route_Public_not_sent:
  assumes "\<forall>rt\<in>set (routes this). \<not> route_matches rt (Path r0)" and "Method r0 = OPTIONS"
  shows "sent_status (writer (rw (ServeHTTP origin this new_sink r0))) = 200 \<and>
         body (writer (rw (ServeHTTP origin this new_sink r0))) = [] \<and>
         hdr (writer (rw (ServeHTTP origin this new_sink r0))) ''Public'' = Some [''OPTIONS''] \<and>
         sent_hdr (writer (rw (ServeHTTP origin this new_sink r0))) ''Public'' = None"
proof -
  from assms(1) have "\<forall>rt\<in>set (routes this). \<not> route_serves rt r0"
    by (simp add: route_serves_def)
  then have l: "ServeHTTP_loop (routes this) (new_responseWriter new_sink) r0
      = (new_responseWriter new_sink, r0)"
    by (rule loop_none)
  have f: "filter (\<lambda>rt. route_matches rt (Path r0)) (routes this) = []"
    using assms(1) by (simp add: filter_empty_conv)
  have o: "optionsRequest_loop (routes this) (Path r0) [OPTIONS] = [OPTIONS]"
    by (simp add: options_loop f)
  show ?thesis
    using assms(2) l o
    by (simp add: ServeHTTP_def Let_def optionsRequest_def rw_WriteHeader_def rw_Header_Set_def
        Header_Set_def sink_WriteHeader_def new_responseWriter_def new_sink_def OPTIONS_def)
qed

theorem options_without_route_Public_not_sent_witness:
  "sent_status (writer (rw (ServeHTTP ''*'' users_mux new_sink options_nothing))) = 200 \<and>
   body (writer (rw (ServeHTTP ''*'' users_mux new_sink options_nothing))) = [] \<and>
   hdr (writer (rw (ServeHTTP ''*'' users_mux new_sink options_nothing))) ''Public''
     = Some [''OPTIONS''] \<and>
   sent_hdr (writer (rw (ServeHTTP ''*'' users_mux new_sink options_nothing))) ''Public'' = None"
proof -
  have h1: "list_all (\<lambda>rt. \<not> route_matches rt (Path options_nothing)) (routes users_mux)"
    by code_simp
  have h2: "Method options_nothing = OPTIONS" by code_simp
  from h1 have h1': "\<forall>rt\<in>set (routes users_mux). \<not> route_matches rt (Path options_nothing)"
    by (simp add: list_all_iff)
  from options_without_route_Public_not_sent [OF h1' h2, of "''*''"] show ?thesis .
qed

section \<open>The query string that the handler sees\<close>

text \<open>
  C10.  The handler of the first serving route gets the request with \<open>RawQuery\<close>
  replaced by the encoding of the parsed query with the captured texts added; with no
  captured text it is the encoding of the parsed query alone, which can differ from the
  query on the wire in the order of the keys and in the escaping: \<open>b=%41&a=x+y\<close>
  becomes \<open>a=x+y&b=A\<close>.
\<close>

theorem query_rewritten_for_handler:
  assumes "i < length rs" and "route_serves (rs ! i) r"
    and "\<forall>j<i. \<not> route_serves (rs ! j) r"
    and "regex (rs ! i) (Path r) = Some (m0, ms)"
  shows "ServeHTTP_loop rs w r
           = handler (rs ! i) w
               (r\<lparr>RawQuery :=
                    Encode (add_matches (params (rs ! i)) 0 ms (ParseQuery (RawQuery r)))\<rparr>) \<and>
         (ms = [] \<longrightarrow>
            ServeHTTP_loop rs w r
              = handler (rs ! i) w (r\<lparr>RawQuery := Encode (ParseQuery (RawQuery r))\<rparr>)) \<and>
         Encode (ParseQuery ''b=%41&a=x+y'') = ''a=x+y&b=A''"
proof -
  have e: "Encode (ParseQuery ''b=%41&a=x+y'') = ''a=x+y&b=A''" by code_simp
  from loop_first [OF assms, of w] e show ?thesis
    by (auto simp: add_url_params_def URL_Query_def)
qed

theorem query_rewritten_for_handler_witness:
  "RawQuery get_about = ''b=%41&a=x+y'' \<and>
   body (writer (fst (ServeHTTP_loop (routes about_mux) (new_responseWriter new_sink) get_about)))
     = ''a=x+y&b=A''"
proof -
  have h1: "0 < length (routes about_mux)" by code_simp
  have h2: "route_serves (routes about_mux ! 0) get_about" by code_simp
  have h3: "\<forall>j<0::nat. \<not> route_serves (routes about_mux ! j) get_about" by simp
  have h4: "regex (routes about_mux ! 0) (Path get_about) = Some (''/about'', [])"
    by code_simp
  have h5: "body (writer (fst (handler (routes about_mux ! 0) (new_responseWriter new_sink)
      (get_about\<lparr>RawQuery := Encode (ParseQuery (RawQuery get_about))\<rparr>)))) = ''a=x+y&b=A''"
    by code_simp
  have h6: "RawQuery get_about = ''b=%41&a=x+y''" by code_simp
  from query_rewritten_for_handler [OF h1 h2 h3 h4, of "new_responseWriter new_sink"]
  have "ServeHTTP_loop (routes about_mux) (new_responseWriter new_sink) get_about
    = handler (routes about_mux ! 0) (new_responseWriter new_sink)
        (get_about\<lparr>RawQuery := Encode (ParseQuery (RawQuery get_about))\<rparr>)"
    by blast
  with h5 h6 show ?thesis by simp
qed

section \<open>Escaping and parsing of query strings\<close>

lemma hex_digits: "\<forall>d\<in>set [0..<16]. ishex (upperhex d) \<and> unhex (upperhex d) = d"
  by code_simp

lemma hex_digit: "d < 16 \<Longrightarrow> ishex (upperhex d) \<and> unhex (upperhex d) = d"
  using hex_digits by simp

lemma upperhex_chars: "\<forall>d\<in>set [0..<16]. \<not> shouldEscape (upperhex d)"
  by code_simp

lemma upperhex_plain: "\<not> shouldEscape (upperhex d)"
proof -
  have "upperhex d = upperhex (d mod 16)" by (simp add: upperhex_def)
  moreover have "d mod 16 < 16" by simp
  ultimately show ?thesis using upperhex_chars by simp
qed

lemma special_escaped:
  "shouldEscape CHR ''&''" "shouldEscape CHR '';''" "shouldEscape CHR ''=''"
  "shouldEscape CHR ''%''" "shouldEscape CHR ''+''" "shouldEscape CHR '' ''"
  by code_simp+

lemma escape_byte_chars:
  "ch \<in> set (escape_byte c) \<Longrightarrow> ch = CHR ''+'' \<or> ch = CHR ''%'' \<or> \<not> shouldEscape ch"
  by (auto simp: escape_byte_def upperhex_plain split: if_splits)

lemma QueryEscape_chars:
  "ch \<in> set (QueryEscape s) \<Longrightarrow> ch = CHR ''+'' \<or> ch = CHR ''%'' \<or> \<not> shouldEscape ch"
  by (auto simp: QueryEscape_def dest: escape_byte_chars)

lemma QueryEscape_no_special:
  "CHR ''&'' \<notin> set (QueryEscape s)" "CHR '';'' \<notin> set (QueryEscape s)" "CHR ''='' \<notin> set (QueryEscape s)"
  using QueryEscape_chars [of "CHR ''&''" s] QueryEscape_chars [of "CHR '';''" s]
    QueryEscape_chars [of "CHR ''=''" s] special_escaped by auto

lemma QueryEscape_Cons: "QueryEscape (c # s) = escape_byte c @ QueryEscape s"
  by (simp add: QueryEscape_def)

lemma QueryUnescape_escape_byte:
  "QueryUnescape (escape_byte c @ rest) = map_option ((#) c) (QueryUnescape rest)"
proof (cases "c = CHR '' ''")
  case True
  then show ?thesis by (simp add: escape_byte_def)
next
  case False
  show ?thesis
  proof (cases "shouldEscape c")
    case True
    have d16: "n div 16 < 16" if "n < 256" for n :: nat
      using that by arith
    have "(of_char c :: nat) \<in> range of_char" by simp
    then have "(of_char c :: nat) < 256" unfolding range_nat_of_char by simp
    then have lt: "(of_char c :: nat) div 16 < 16" by (rule d16)
    have lt2: "(of_char c :: nat) mod 16 < 16" by simp
    from hex_digit [OF lt] hex_digit [OF lt2] True False show ?thesis
      by (simp add: escape_byte_def)
  next
    case ne: False
    with special_escaped have "c \<noteq> CHR ''%''" "c \<noteq> CHR ''+''" by auto
    with ne False show ?thesis by (simp add: escape_byte_def)
  qed
qed

lemma QueryUnescape_QueryEscape: "QueryUnescape (QueryEscape s) = Some s"
  by (induction s)
     (simp_all add: QueryEscape_Cons QueryUnescape_escape_byte del: QueryUnescape.simps(2),
      simp add: QueryEscape_def)

text \<open>
  Parsing an encoded query gives back, key by key, the values that were encoded.
\<close>

lemma Index_None_iff: "Index s c = None \<longleftrightarrow> c \<notin> set s"
  by (induction s) auto

lemma Index_append_sep: "c \<notin> set a \<Longrightarrow> Index (a @ c # b) c = Some (length a)"
  by (induction a) auto

lemma Cut_sep: "c \<notin> set a \<Longrightarrow> Cut (a @ c # b) c = (a, b)"
  by (simp add: Cut_def Index_append_sep)

lemma Cut_none: "c \<notin> set s \<Longrightarrow> Cut s c = (s, [])"
  by (simp add: Cut_def Index_None_iff [THEN iffD2])

lemma Contains_iff: "Contains s c \<longleftrightarrow> c \<in> set s"
  by (simp add: Contains_def Index_None_iff)

lemma parse_piece_Nil [simp]: "parse_piece m [] = m"
  by (simp add: parse_piece_def)

lemma parseQuery_Nil [simp]: "parseQuery m [] = m"
  by (simp add: parseQuery.simps)

lemma parseQuery_step:
  "query \<noteq> [] \<Longrightarrow> Cut query CHR ''&'' = (key, rest) \<Longrightarrow>
   parseQuery m query = parseQuery (parse_piece m key) rest"
  by (subst parseQuery.simps) (simp add: parse_piece_def Let_def split: prod.splits option.splits)

lemma parseQuery_Join:
  "\<forall>p\<in>set ps. CHR ''&'' \<notin> set p \<Longrightarrow> parseQuery m (Join ps ''&'') = foldl parse_piece m ps"
proof (induction ps "''&''" arbitrary: m rule: Join.induct)
  case 1
  show ?case by simp
next
  case (2 p)
  show ?case
  proof (cases "p = []")
    case True
    then show ?thesis by simp
  next
    case False
    from 2 have "Cut p CHR ''&'' = (p, [])" by (simp add: Cut_none)
    from parseQuery_step [OF False this] show ?thesis by simp
  qed
next
  case (3 p q ps)
  have c: "Cut (p @ CHR ''&'' # Join (q # ps) ''&'') CHR ''&'' = (p, Join (q # ps) ''&'')"
    using 3(2) by (simp add: Cut_sep)
  have "parseQuery m (Join (p # q # ps) ''&'') = parseQuery (parse_piece m p) (Join (q # ps) ''&'')"
    using parseQuery_step [OF _ c] by simp
  also have "\<dots> = foldl parse_piece (parse_piece m p) (q # ps)"
    using 3 by simp
  finally show ?case by simp
qed

lemma parse_piece_piece: "parse_piece m (piece (k, x)) = Values_Add k x m"
proof -
  have c: "Cut (piece (k, x)) CHR ''='' = (QueryEscape k, QueryEscape x)"
    by (simp add: piece_def Cut_sep QueryEscape_no_special)
  have s: "\<not> Contains (piece (k, x)) CHR '';''"
    by (simp add: Contains_iff piece_def QueryEscape_no_special)
  have n: "piece (k, x) \<noteq> []" by (simp add: piece_def)
  show ?thesis
    unfolding parse_piece_def using c s n by (simp add: QueryUnescape_QueryEscape)
qed

lemma foldl_parse_pieces:
  "foldl parse_piece m (map piece ps) = foldl (\<lambda>m p. Values_Add (fst p) (snd p) m) m ps"
  by (induction ps arbitrary: m) (simp_all add: parse_piece_piece [of _ "fst p" "snd p" for p, simplified])

lemma piece_no_amp: "CHR ''&'' \<notin> set (piece p)"
  by (simp add: piece_def QueryEscape_no_special)

lemma foldl_add_piece:
  "buf \<noteq> [] \<Longrightarrow> foldl add_piece buf ps = buf @ concat (map (\<lambda>p. ''&'' @ p) ps)"
  by (induction ps arbitrary: buf) (simp_all add: add_piece_def)

lemma Join_amp: "Join (p # ps) ''&'' = p @ concat (map (\<lambda>p. ''&'' @ p) ps)"
  by (induction ps arbitrary: p) simp_all

lemma foldl_add_piece_Join:
  "\<forall>p\<in>set ps. p \<noteq> [] \<Longrightarrow> foldl add_piece [] ps = Join ps ''&''"
proof (cases ps)
  case Nil
  then show ?thesis by simp
next
  case (Cons p qs)
  assume "\<forall>p\<in>set ps. p \<noteq> []"
  with Cons have "p \<noteq> []" by simp
  then have "foldl add_piece [] (p # qs) = foldl add_piece p qs" by (simp add: add_piece_def)
  with foldl_add_piece [OF \<open>p \<noteq> []\<close>, of qs] Join_amp [of p qs] Cons show ?thesis by simp
qed

lemma encode_values_foldl:
  "encode_values buf (QueryEscape k) vs = foldl add_piece buf (map (\<lambda>x. piece (k, x)) vs)"
  by (induction vs arbitrary: buf) (simp_all add: add_piece_def piece_def)

lemma encode_keys_foldl:
  "encode_keys v buf ks
     = foldl add_piece buf (map piece (concat (map (\<lambda>k. map (Pair k) (Values_lookup v k)) ks)))"
  by (induction ks arbitrary: buf) (simp_all add: encode_values_foldl comp_def)

lemma Encode_Join: "Encode v = Join (map piece (pairs_of v)) ''&''"
proof -
  have "\<forall>p\<in>set (map piece (pairs_of v)). p \<noteq> []" by (auto simp: piece_def)
  from foldl_add_piece_Join [OF this] show ?thesis
    by (simp add: Encode_def encode_keys_foldl pairs_of_def)
qed

lemma ParseQuery_Encode:
  "ParseQuery (Encode v) = foldl (\<lambda>m p. Values_Add (fst p) (snd p) m) [] (pairs_of v)"
proof -
  have "\<forall>p\<in>set (map piece (pairs_of v)). CHR ''&'' \<notin> set p" by (auto simp: piece_no_amp)
  from parseQuery_Join [OF this] show ?thesis
    by (simp add: ParseQuery_def Encode_Join foldl_parse_pieces)
qed

lemma Values_lookup_Add:
  "Values_lookup (Values_Add k x m) k' = (if k' = k then Values_lookup m k @ [x] else Values_lookup m k')"
proof (cases "map_of m k")
  case None
  then show ?thesis by (simp add: Values_lookup_def Values_Add_def map_add_def split: option.splits)
next
  case (Some xs)
  have "map_of (map (\<lambda>(k', xs). if k' = k then (k', xs @ [x]) else (k', xs)) m) k'
        = (if k' = k then map_option (\<lambda>xs. xs @ [x]) (map_of m k') else map_of m k')"
    by (induction m) auto
  with Some show ?thesis by (simp add: Values_lookup_def Values_Add_def)
qed

lemma lookup_foldl_Add:
  "Values_lookup (foldl (\<lambda>m p. Values_Add (fst p) (snd p) m) m ps) k
     = Values_lookup m k @ map snd (filter (\<lambda>p. fst p = k) ps)"
  by (induction ps arbitrary: m) (simp_all add: Values_lookup_Add)

lemma filter_pairs:
  "map snd (filter (\<lambda>p. fst p = k') (concat (map (\<lambda>k. map (Pair k) (f k)) ks)))
     = concat (map (\<lambda>k. if k = k' then f k else []) ks)"
  by (induction ks) (simp_all add: comp_def)

lemma concat_single:
  "distinct ks \<Longrightarrow> concat (map (\<lambda>k. if k = k' then f k else []) ks) = (if k' \<in> set ks then f k' else [])"
  by (induction ks) auto

lemma lookup_not_key: "k \<notin> fst ` set v \<Longrightarrow> Values_lookup v k = []"
  by (simp add: Values_lookup_def map_of_eq_None_iff [THEN iffD2])

lemma Query_Encode_roundtrip:
  assumes "distinct (map fst v)"
  shows "Values_lookup (ParseQuery (Encode v)) k = Values_lookup v k"
proof -
  have d: "distinct (sort (map fst v))" using assms by simp
  have "Values_lookup (ParseQuery (Encode v)) k
        = concat (map (\<lambda>k'. if k' = k then Values_lookup v k' else []) (sort (map fst v)))"
    by (simp add: ParseQuery_Encode lookup_foldl_Add pairs_of_def filter_pairs Values_lookup_def [of "[]"])
  also have "\<dots> = (if k \<in> set (sort (map fst v)) then Values_lookup v k else [])"
    by (rule concat_single [OF d])
  also have "\<dots> = Values_lookup v k"
    using lookup_not_key [of k v] by auto
  finally show ?thesis .
qed

lemma distinct_Values_Add: "distinct (map fst m) \<Longrightarrow> distinct (map fst (Values_Add k x m))"
proof (cases "map_of m k")
  case None
  assume "distinct (map fst m)"
  moreover from None have "k \<notin> fst ` set m" by (simp add: map_of_eq_None_iff)
  ultimately show ?thesis using None by (simp add: Values_Add_def)
next
  case (Some xs)
  have "map fst (map (\<lambda>(k', xs). if k' = k then (k', xs @ [x]) else (k', xs)) m) = map fst m"
    by (induction m) auto
  moreover assume "distinct (map fst m)"
  ultimately show ?thesis using Some by (simp add: Values_Add_def del: map_map)
qed

lemma distinct_parse_piece: "distinct (map fst m) \<Longrightarrow> distinct (map fst (parse_piece m key))"
  by (simp add: parse_piece_def distinct_Values_Add split: prod.splits option.splits)

lemma distinct_parseQuery: "distinct (map fst m) \<Longrightarrow> distinct (map fst (parseQuery m query))"
proof (induction "length query" arbitrary: m query rule: less_induct)
  case less
  show ?case
  proof (cases "query = []")
    case True
    with less.prems show ?thesis by simp
  next
    case False
    obtain key rest where c: "Cut query CHR ''&'' = (key, rest)" by (cases "Cut query CHR ''&''")
    have "length rest < length query"
      using c False by (auto simp: Cut_def Index_None_iff split: option.splits)
    from less.hyps [OF this distinct_parse_piece [OF less.prems]] parseQuery_step [OF False c]
    show ?thesis by simp
  qed
qed

lemma distinct_ParseQuery: "distinct (map fst (ParseQuery q))"
  by (simp add: ParseQuery_def distinct_parseQuery)

lemma distinct_add_matches:
  "distinct (map fst v) \<Longrightarrow> distinct (map fst (add_matches ps i ms v))"
  by (induction ms arbitrary: i v) (simp_all add: distinct_Values_Add)

lemma handler_query:
  "Values_lookup (URL_Query (add_url_params rt ms r)) k
     = Values_lookup (add_matches (params rt) 0 ms (URL_Query r)) k"
  by (simp add: add_url_params_def URL_Query_def Query_Encode_roundtrip distinct_add_matches
      distinct_ParseQuery)

lemma lookup_add_matches_mono:
  "x \<in> set (Values_lookup v k) \<Longrightarrow> x \<in> set (Values_lookup (add_matches ps i ms v) k)"
proof (induction ms arbitrary: i v)
  case Nil
  then show ?case by simp
next
  case (Cons m ms)
  from Cons.prems have "x \<in> set (Values_lookup (Values_Add (param_name ps i) m v) k)"
    by (auto simp: Values_lookup_Add)
  from Cons.IH [OF this] show ?case by simp
qed

lemma lookup_add_matches:
  "j < length ms \<Longrightarrow> ms ! j \<in> set (Values_lookup (add_matches ps i ms v) (param_name ps (i + j)))"
proof (induction ms arbitrary: i j v)
  case Nil
  then show ?case by simp
next
  case (Cons m ms)
  show ?case
  proof (cases j)
    case 0
    have "m \<in> set (Values_lookup (Values_Add (param_name ps i) m v) (param_name ps i))"
      by (simp add: Values_lookup_Add)
    from lookup_add_matches_mono [OF this] 0 show ?thesis by simp
  next
    case (Suc j')
    with Cons.prems have "j' < length ms" by simp
    from Cons.IH [OF this, of "Suc i"] Suc show ?thesis by simp
  qed
qed

section \<open>Path parameters\<close>

lemma take_Index:
  "(case Index s c of Some i \<Rightarrow> take i s | None \<Rightarrow> s) = takeWhile (\<lambda>x. x \<noteq> c) s"
  by (induction s) (auto split: option.splits)

lemma AddRoute_loop_params:
  "snd (AddRoute_loop parts j ps) k =
     (if j \<le> k \<and> k < j + length (filter (\<lambda>p. HasPrefix p '':'') parts)
      then Some (segment_name (filter (\<lambda>p. HasPrefix p '':'') parts ! (k - j)))
      else ps k)"
proof (induction parts arbitrary: j ps)
  case Nil
  show ?case by auto
next
  case (Cons part parts)
  show ?case
  proof (cases "HasPrefix part '':''")
    case False
    then show ?thesis using Cons [of j ps] by (simp add: split_beta)
  next
    case True
    have n: "snd (case Index part CHR ''('' of None \<Rightarrow> (''([^/]+)'', part)
                  | Some index \<Rightarrow> (drop index part, take index part)) = segment_name part"
      using take_Index [where s = part and c = "CHR ''(''"] by (simp add: segment_name_def split: option.splits)
    have step: "snd (AddRoute_loop (part # parts) j ps) k
        = snd (AddRoute_loop parts (Suc j) (ps(j \<mapsto> segment_name part))) k"
      using True n by (simp add: split_beta Let_def)
    show ?thesis
      unfolding step Cons [of "Suc j" "ps(j \<mapsto> segment_name part)"]
      using True by (auto simp: nth_Cons')
  qed
qed

lemma drop_Index:
  "(case Index s c of Some i \<Rightarrow> drop i s | None \<Rightarrow> d)
     = (if c \<in> set s then dropWhile (\<lambda>x. x \<noteq> c) s else d)"
  by (induction s) (auto split: option.splits)

lemma AddRoute_loop_parts: "fst (AddRoute_loop parts j ps) = map segment_expr parts"
proof (induction parts arbitrary: j ps)
  case Nil
  show ?case by simp
next
  case (Cons part parts)
  have "fst (case Index part CHR ''('' of None \<Rightarrow> (''([^/]+)'', part)
                | Some index \<Rightarrow> (drop index part, take index part))
        = (case Index part CHR ''('' of Some i \<Rightarrow> drop i part | None \<Rightarrow> ''([^/]+)'')"
    by (simp split: option.splits)
  then have e: "fst (case Index part CHR ''('' of None \<Rightarrow> (''([^/]+)'', part)
                | Some index \<Rightarrow> (drop index part, take index part))
           = (if CHR ''('' \<in> set part then dropWhile (\<lambda>c. c \<noteq> CHR ''('') part else ''([^/]+)'')"
    by (simp only: drop_Index)
  show ?case
    using Cons e by (simp add: split_beta Let_def segment_expr_def)
qed

lemma segment_name_colon: "HasPrefix seg '':'' \<Longrightarrow> HasPrefix (segment_name seg) '':''"
  by (cases seg) (auto simp: HasPrefix_def segment_name_def)

lemma AddRoute_fields:
  assumes "AddRoute Compile meth pattern h this = Inr (rt, this')"
  shows "method rt = meth" and "handler rt = h"
    and "params rt = snd (AddRoute_loop (Split pattern CHR ''/'') 0 Map.empty)"
    and "routes this' = routes this @ [rt]"
    and "Compile (Join (map segment_expr (Split pattern CHR ''/'')) ''/'') = Some (regex rt)"
  using assms AddRoute_loop_parts [of "Split pattern CHR ''/''" 0 Map.empty] by (auto simp: AddRoute_def Let_def split: prod.splits option.splits)

lemma AddRoute_params:
  assumes "AddRoute Compile meth pattern h this = Inr (rt, this')"
  shows "params rt k =
     (if k < length (param_segments pattern)
      then Some (segment_name (param_segments pattern ! k)) else None)"
  using AddRoute_fields(3) [OF assms]
  by (simp add: AddRoute_loop_params param_segments_def)

lemma status_optionsRequest: "status (optionsRequest origin this w r) = 200"
  by (simp add: optionsRequest_def Let_def rw_WriteHeader_def rw_Header_Set_def)

text \<open>
  C1, as the code has it.  Registering a template gives a route whose expression is
  compiled from the template with every piece that starts with a colon replaced (by its
  text from the first open parenthesis on, or by \<open>([^/]+)\<close>), and whose parameter
  map holds, for the \<open>k\<close>-th such piece, the text of the piece before that
  parenthesis, and nothing at the positions after the last such piece: the name keeps its
  colon.  When the route serves a request that no earlier route serves, its handler is
  called, and the query that the handler parses from the request is the request's parsed
  query with the \<open>k\<close>-th captured text appended under the name of the \<open>k\<close>-th
  such piece, or under the empty key when the template has no \<open>k\<close>-th such piece.
  When the route does not serve the request either, the answer is the not-found response,
  unless the method is OPTIONS: then it is the OPTIONS answer, with status 200.
\<close>

theorem path_parameters_reach_handler:
  assumes reg: "AddRoute Compile meth pattern h this = Inr (rt, this')"
    and none: "\<forall>x\<in>set (routes this). \<not> route_serves x r"
  shows "Compile (Join (map segment_expr (Split pattern CHR ''/'')) ''/'') = Some (regex rt) \<and>
         (\<forall>k. params rt k =
            (if k < length (param_segments pattern)
             then Some (segment_name (param_segments pattern ! k)) else None)) \<and>
         (\<forall>k<length (param_segments pattern).
            HasPrefix (segment_name (param_segments pattern ! k)) '':'') \<and>
         (route_serves rt r \<longrightarrow> regex rt (Path r) = Some (m0, ms) \<longrightarrow>
            ServeHTTP_loop (routes this') w r = h w (add_url_params rt ms r) \<and>
            (\<forall>key. Values_lookup (URL_Query (add_url_params rt ms r)) key
                     = Values_lookup (add_matches (params rt) 0 ms (URL_Query r)) key) \<and>
            (\<forall>k<length ms.
               ms ! k \<in> set (Values_lookup (URL_Query (add_url_params rt ms r))
                                (if k < length (param_segments pattern)
                                 then segment_name (param_segments pattern ! k) else [])))) \<and>
         (\<not> route_serves rt r \<longrightarrow> Method r \<noteq> OPTIONS \<longrightarrow>
            rw (ServeHTTP origin this' rw0 r) = http_NotFound origin (new_responseWriter rw0)) \<and>
         (\<not> route_serves rt r \<longrightarrow> Method r = OPTIONS \<longrightarrow>
            rw (ServeHTTP origin this' rw0 r)
              = optionsRequest origin this' (new_responseWriter rw0) r \<and>
            status (rw (ServeHTTP origin this' rw0 r)) = 200)"
proof (intro conjI allI impI)
  show "Compile (Join (map segment_expr (Split pattern CHR ''/'')) ''/'') = Some (regex rt)"
    by (rule AddRoute_fields(5) [OF reg])
next
  fix k
  show "params rt k =
          (if k < length (param_segments pattern)
           then Some (segment_name (param_segments pattern ! k)) else None)"
    by (rule AddRoute_params [OF reg])
next
  fix k assume k: "k < length (param_segments pattern)"
  have "param_segments pattern ! k \<in> set (param_segments pattern)" using k by simp
  then have "HasPrefix (param_segments pattern ! k) '':''" by (simp add: param_segments_def)
  then show "HasPrefix (segment_name (param_segments pattern ! k)) '':''"
    by (rule segment_name_colon)
next
  assume s: "route_serves rt r" and m: "regex rt (Path r) = Some (m0, ms)"
  have i: "length (routes this) < length (routes this')"
    using AddRoute_fields(4) [OF reg] by simp
  have at: "routes this' ! length (routes this) = rt"
    using AddRoute_fields(4) [OF reg] by simp
  have before: "\<forall>j<length (routes this). \<not> route_serves (routes this' ! j) r"
    using none AddRoute_fields(4) [OF reg] by (simp add: nth_append)
  from loop_first [OF i _ before, of m0 ms w] s m at AddRoute_fields(2) [OF reg]
  show "ServeHTTP_loop (routes this') w r = h w (add_url_params rt ms r)" by simp
next
  fix key
  show "Values_lookup (URL_Query (add_url_params rt ms r)) key
          = Values_lookup (add_matches (params rt) 0 ms (URL_Query r)) key"
    by (rule handler_query)
next
  fix k assume "k < length ms"
  from lookup_add_matches [OF this, of "params rt" 0 "URL_Query r"]
  have "ms ! k \<in> set (Values_lookup (URL_Query (add_url_params rt ms r))
      (param_name (params rt) k))"
    by (simp add: handler_query)
  moreover have "param_name (params rt) k
      = (if k < length (param_segments pattern)
         then segment_name (param_segments pattern ! k) else [])"
    by (simp add: param_name_def AddRoute_params [OF reg])
  ultimately show "ms ! k \<in> set (Values_lookup (URL_Query (add_url_params rt ms r))
      (if k < length (param_segments pattern)
       then segment_name (param_segments pattern ! k) else []))"
    by simp
next
  assume ns: "\<not> route_serves rt r" and no: "Method r \<noteq> OPTIONS"
  have "\<forall>x\<in>set (routes this'). \<not> route_serves x r"
    using none ns AddRoute_fields(4) [OF reg] by simp
  from loop_none [OF this, of "new_responseWriter rw0"] no
  show "rw (ServeHTTP origin this' rw0 r) = http_NotFound origin (new_responseWriter rw0)"
    by (simp add: ServeHTTP_def Let_def new_responseWriter_def)
next
  assume ns: "\<not> route_serves rt r" and o: "Method r = OPTIONS"
  have "\<forall>x\<in>set (routes this'). \<not> route_serves x r"
    using none ns AddRoute_fields(4) [OF reg] by simp
  from loop_none [OF this, of "new_responseWriter rw0"] o
  show a: "rw (ServeHTTP origin this' rw0 r) = optionsRequest origin this' (new_responseWriter rw0) r"
    by (simp add: ServeHTTP_def Let_def started_optionsRequest)
  show "status (rw (ServeHTTP origin this' rw0 r)) = 200"
    unfolding a by (rule status_optionsRequest)
qed

theorem path_parameters_reach_handler_witness:
  "params (routes user_id_mux ! 0) 0 = Some '':id'' \<and>
   ''42'' \<in> set (Values_lookup (URL_Query (snd (ServeHTTP_loop (routes user_id_mux)
       (new_responseWriter new_sink) get_user_42))) '':id'') \<and>
   sent_status (writer (rw (ServeHTTP ''*'' user_id_mux new_sink get_user_abc))) = 404 \<and>
   status (rw (ServeHTTP ''*'' user_id_mux new_sink options_user_abc)) = 200"
proof -
  have "\<not> isl (AddRoute regexp_Compile GET ''/user/:id([0-9]+)'' (echo_param '':id'') New)"
    by code_simp
  then obtain rt this' where
    reg: "AddRoute regexp_Compile GET ''/user/:id([0-9]+)'' (echo_param '':id'') New = Inr (rt, this')"
    by (cases "AddRoute regexp_Compile GET ''/user/:id([0-9]+)'' (echo_param '':id'') New") auto
  have mux: "user_id_mux = this'"
    using reg by (simp add: user_id_mux_def register_def)
  have rl: "routes this' = [rt]"
    using AddRoute_fields(4) [OF reg] by (simp add: New_def)
  have rt: "rt = routes user_id_mux ! 0" by (simp add: mux rl)
  have none: "\<forall>x\<in>set (routes New). \<not> route_serves x r" for r by (simp add: New_def)
  have segs: "param_segments ''/user/:id([0-9]+)'' = ['':id([0-9]+)'']" by code_simp
  have nm: "segment_name '':id([0-9]+)'' = '':id''" by code_simp
  note T = path_parameters_reach_handler [where r = get_user_42 and ?m0.0 = "''/user/42''" and ms = "[''42'']"
      and w = "new_responseWriter new_sink" and origin = "''*''" and ?rw0.0 = new_sink,
      OF reg none]
  note U = path_parameters_reach_handler [where r = get_user_abc and origin = "''*''" and ?rw0.0 = new_sink, OF reg none]
  note V = path_parameters_reach_handler [where r = options_user_abc and origin = "''*''" and ?rw0.0 = new_sink,
      OF reg none]
  from T have "params rt 0 = (if 0 < length (param_segments ''/user/:id([0-9]+)'')
      then Some (segment_name (param_segments ''/user/:id([0-9]+)'' ! 0)) else None)"
    by blast
  then have a: "params rt 0 = Some '':id''"
    by (simp add: segs nm)
  have s: "route_serves rt get_user_42" unfolding rt by code_simp
  have m: "regex rt (Path get_user_42) = Some (''/user/42'', [''42''])"
    unfolding rt by code_simp
  from T s m have l: "ServeHTTP_loop (routes this') (new_responseWriter new_sink) get_user_42
      = echo_param '':id'' (new_responseWriter new_sink) (add_url_params rt [''42''] get_user_42)"
    by blast
  from T s m have "\<forall>k<length [''42''].
      [''42''] ! k \<in> set (Values_lookup (URL_Query (add_url_params rt [''42''] get_user_42))
        (if k < length (param_segments ''/user/:id([0-9]+)'')
         then segment_name (param_segments ''/user/:id([0-9]+)'' ! k) else []))"
    by blast
  then have "''42'' \<in> set (Values_lookup (URL_Query (add_url_params rt [''42''] get_user_42))
      '':id'')"
    by (simp add: segs nm)
  then have b: "''42'' \<in> set (Values_lookup (URL_Query (snd (ServeHTTP_loop (routes this')
       (new_responseWriter new_sink) get_user_42))) '':id'')"
    by (simp add: l echo_param_def)
  have ns: "\<not> route_serves rt get_user_abc" unfolding rt by code_simp
  have no: "Method get_user_abc \<noteq> OPTIONS" by code_simp
  from U ns no have "rw (ServeHTTP ''*'' this' new_sink get_user_abc)
      = http_NotFound ''*'' (new_responseWriter new_sink)" by blast
  then have c: "sent_status (writer (rw (ServeHTTP ''*'' this' new_sink get_user_abc))) = 404"
    by (simp add: http_NotFound_def http_Error_def rw_Write_def rw_WriteHeader_def
        rw_Header_Set_def sink_Write_def sink_WriteHeader_def new_sink_def
        new_responseWriter_def Let_def)
  have ns': "\<not> route_serves rt options_user_abc" unfolding rt by code_simp
  have o: "Method options_user_abc = OPTIONS" by code_simp
  from V ns' o have d: "status (rw (ServeHTTP ''*'' this' new_sink options_user_abc)) = 200"
    by blast
  from a b c d show ?thesis unfolding mux rl by simp
qed

text \<open>
  The claim as stated fails in five ways.  The name: for the template
  \<open>/user/:id([0-9]+)\<close> the parameter map holds \<open>:id\<close>, and on the request
  \<open>/user/42\<close> the handler's query has the value 42 under \<open>:id\<close> and nothing under
  \<open>id\<close>, so a handler that echoes the parameter \<open>id\<close> answers with an empty body.
  A group without a name: the template \<open>/:x(a)(b)\<close> has two groups and one name, and
  on \<open>/ab\<close> the second captured text is under the empty key.  The order: with
  \<open>/user/:name\<close> registered first, \<open>/user/42\<close> matches the second template as
  well, but the first route's handler runs and nothing is under \<open>:id\<close>.  The method
  of the route: the path of \<open>POST /user/42\<close> matches the pattern of the GET route,
  and the answer is the not-found response.  The method OPTIONS:
  \<open>OPTIONS /user/abc\<close> matches no route and is answered with status 200.
\<close>

theorem parameter_name_keeps_colon:
  "params (routes user_id_mux ! 0) 0 = Some '':id'' \<and>
   Values_Get (URL_Query (req (ServeHTTP ''*'' user_id_mux new_sink get_user_42))) ''id'' = [] \<and>
   Values_Get (URL_Query (req (ServeHTTP ''*'' user_id_mux new_sink get_user_42))) '':id'' = ''42'' \<and>
   body (writer (rw (ServeHTTP ''*'' user_id_plain_mux new_sink get_user_42))) = [] \<and>
   regex (routes two_groups_mux ! 0) (Path get_ab) = Some (''/ab'', [''a'', ''b'']) \<and>
   Values_lookup (URL_Query (req (ServeHTTP ''*'' two_groups_mux new_sink get_ab))) '':x'' = [''a''] \<and>
   Values_lookup (URL_Query (req (ServeHTTP ''*'' two_groups_mux new_sink get_ab))) [] = [''b''] \<and>
   route_serves (routes name_first_mux ! 1) get_user_42 \<and>
   Values_lookup (URL_Query (req (ServeHTTP ''*'' name_first_mux new_sink get_user_42))) '':id'' = [] \<and>
   Values_lookup (URL_Query (req (ServeHTTP ''*'' name_first_mux new_sink get_user_42))) '':name''
     = [''42''] \<and>
   route_matches (routes user_id_mux ! 0) (Path post_user_42) \<and>
   sent_status (writer (rw (ServeHTTP ''*'' user_id_mux new_sink post_user_42))) = 404 \<and>
   list_all (\<lambda>rt. \<not> route_matches rt (Path options_user_abc)) (routes user_id_mux) \<and>
   sent_status (writer (rw (ServeHTTP ''*'' user_id_mux new_sink options_user_abc))) = 200"
  by code_simp

section \<open>Static files\<close>

lemma Split_nonempty [simp]: "Split s c \<noteq> []"
  by (induction s) (auto split: list.splits)

lemma Split_Cons:
  "Split (x # xs) c =
     (if x = c then [] # Split xs c else (x # hd (Split xs c)) # tl (Split xs c))"
  by (cases "Split xs c") simp_all

declare Split.simps(2) [simp del] Split_Cons [simp]

lemma Split_append_sep: "Split (a @ c # b) c = Split a c @ Split b c"
  by (induction a) simp_all

lemma Split_no_sep: "c \<notin> set s \<Longrightarrow> Split s c = [s]"
  by (induction s) auto

lemma Split_elems: "e \<in> set (Split s c) \<Longrightarrow> c \<notin> set e"
proof (induction s arbitrary: e)
  case Nil
  then show ?case by simp
next
  case (Cons x s)
  then show ?case by (cases "Split s c") (auto split: if_splits)
qed

lemma Split_Join: "xs \<noteq> [] \<Longrightarrow> \<forall>e\<in>set xs. c \<notin> set e \<Longrightarrow> Split (Join xs [c]) c = xs"
proof (induction xs "[c]" rule: Join.induct)
  case 1
  then show ?case by simp
next
  case (2 p)
  then show ?case by (simp add: Split_no_sep)
next
  case (3 p q ps)
  then show ?case by (simp add: Split_append_sep Split_no_sep)
qed

lemma clean_elems_append:
  "clean_elems rd out (xs @ ys) = clean_elems rd (clean_elems rd out xs) ys"
  by (induction xs arbitrary: out) auto

lemma clean_plain: "\<forall>e\<in>set xs. plain e \<Longrightarrow> clean_elems rd out xs = out @ xs"
  by (induction xs arbitrary: out) (simp_all add: plain_def)

lemma clean_rooted_plain:
  "\<forall>e\<in>set out. plain e \<Longrightarrow> \<forall>e\<in>set xs. CHR ''/'' \<notin> set e \<Longrightarrow>
   \<forall>e\<in>set (clean_elems True out xs). plain e"
proof (induction xs arbitrary: out)
  case Nil
  then show ?case by simp
next
  case (Cons x xs)
  have rest: "\<forall>e\<in>set xs. CHR ''/'' \<notin> set e"
    using Cons.prems(2) by simp
  have b: "\<forall>e\<in>set (butlast out). plain e"
    using Cons.prems(1) by (meson in_set_butlastD)
  have d: "\<forall>e\<in>set (out @ [x]). plain e" if "x \<noteq> []" "x \<noteq> ''.''" "x \<noteq> ''..''"
  proof -
    have "plain x" using that Cons.prems(2) by (simp add: plain_def)
    then show ?thesis using Cons.prems(1) by simp
  qed
  show ?case
    using Cons.IH [OF b rest] Cons.IH [OF Cons.prems(1) rest] Cons.IH [OF d rest]
    by simp
qed

lemma clean_okel:
  "\<forall>e\<in>set out. okel e \<Longrightarrow> \<forall>e\<in>set xs. CHR ''/'' \<notin> set e \<Longrightarrow>
   \<forall>e\<in>set (clean_elems rd out xs). okel e"
proof (induction xs arbitrary: out)
  case Nil
  then show ?case by simp
next
  case (Cons x xs)
  have rest: "\<forall>e\<in>set xs. CHR ''/'' \<notin> set e"
    using Cons.prems(2) by simp
  have b: "\<forall>e\<in>set (butlast out). okel e"
    using Cons.prems(1) by (meson in_set_butlastD)
  have "okel ''..''" by (simp add: okel_def)
  then have c: "\<forall>e\<in>set (out @ [''..'']). okel e"
    using Cons.prems(1) by simp
  have d: "\<forall>e\<in>set (out @ [x]). okel e" if "x \<noteq> []" "x \<noteq> ''.''"
  proof -
    have "okel x" using that Cons.prems(2) by (simp add: okel_def)
    then show ?thesis using Cons.prems(1) by simp
  qed
  show ?case
    using Cons.IH [OF b rest] Cons.IH [OF c rest] Cons.IH [OF d rest]
      Cons.IH [OF Cons.prems(1) rest]
    by simp
qed

lemma Clean_render:
  "p \<noteq> [] \<Longrightarrow> filepath_Clean p = render (is_rooted p) (clean_elems (is_rooted p) [] (Split p CHR ''/''))"
  by (simp add: filepath_Clean_def render_def is_rooted_def Let_def)

lemma Join_hd: "xs \<noteq> [] \<Longrightarrow> hd xs \<noteq> [] \<Longrightarrow> Join xs sep \<noteq> [] \<and> hd (Join xs sep) = hd (hd xs)"
  by (induction xs sep rule: Join.induct) auto

lemma is_rooted_render: "\<forall>e\<in>set out. okel e \<Longrightarrow> is_rooted (render rd out) = rd"
proof (cases rd)
  case True
  then show ?thesis by (simp add: render_def is_rooted_def HasPrefix_def)
next
  case False
  assume ok: "\<forall>e\<in>set out. okel e"
  show ?thesis
  proof (cases out)
    case Nil
    with False show ?thesis by (simp add: render_def is_rooted_def HasPrefix_def)
  next
    case (Cons a as)
    with ok have a: "a \<noteq> []" "CHR ''/'' \<notin> set a" by (auto simp: okel_def)
    with Join_hd [of out "''/''"] Cons have j: "Join out ''/'' \<noteq> []" "hd (Join out ''/'') = hd a" by auto
    from a have "hd a \<noteq> CHR ''/''" by (cases a) auto
    with j have "take 1 (Join out ''/'') \<noteq> ''/''" by (cases "Join out ''/''") auto
    with False j show ?thesis by (simp add: render_def is_rooted_def HasPrefix_def)
  qed
qed

lemma path_elems_render: "\<forall>e\<in>set out. okel e \<Longrightarrow> path_elems (render rd out) = out"
proof -
  assume ok: "\<forall>e\<in>set out. okel e"
  then have nosep: "\<forall>e\<in>set out. CHR ''/'' \<notin> set e" by (simp add: okel_def)
  have f: "filter (\<lambda>e. e \<noteq> [] \<and> e \<noteq> ''.'') out = out"
    using ok by (simp add: okel_def filter_id_conv)
  show ?thesis
  proof (cases out)
    case Nil
    then show ?thesis by (cases rd) (simp_all add: render_def path_elems_def)
  next
    case (Cons a as)
    then have ne: "out \<noteq> []" by simp
    from ok Cons have "a \<noteq> []" by (auto simp: okel_def)
    with Join_hd [of out "''/''"] Cons have j: "Join out ''/'' \<noteq> []" by auto
    have s: "Split (Join out ''/'') CHR ''/'' = out"
      using Split_Join [OF ne nosep] by simp
    show ?thesis
    proof (cases rd)
      case True
      then show ?thesis using s f by (simp add: render_def path_elems_def)
    next
      case False
      then show ?thesis using s f j by (simp add: render_def path_elems_def)
    qed
  qed
qed

lemma clean_after_render:
  assumes "\<forall>e\<in>set out1. plain e"
  shows "clean_elems rd dout (Split (render rP out1) CHR ''/'') = dout @ out1"
proof (cases out1)
  case Nil
  then show ?thesis by (cases rP) (simp_all add: render_def)
next
  case (Cons a as)
  then have ne: "out1 \<noteq> []" by simp
  have nosep: "\<forall>e\<in>set out1. CHR ''/'' \<notin> set e" using assms by (simp add: plain_def)
  from assms Cons have "a \<noteq> []" by (simp add: plain_def)
  with Join_hd [of out1 "''/''"] Cons have j: "Join out1 ''/'' \<noteq> []" by simp
  have s: "Split (Join out1 ''/'') CHR ''/'' = out1"
    using Split_Join [OF ne nosep] by simp
  show ?thesis
  proof (cases rP)
    case True
    then show ?thesis using s clean_plain [OF assms] by (simp add: render_def)
  next
    case False
    then show ?thesis using s j clean_plain [OF assms] by (simp add: render_def)
  qed
qed

lemma Clean_request_path:
  assumes "request_path P"
  shows "\<exists>out1. (\<forall>e\<in>set out1. plain e) \<and> filepath_Clean P = render (is_rooted P) out1"
proof -
  consider "is_rooted P" | "P = []" | "P = ''*''"
    using assms by (auto simp: request_path_def)
  then show ?thesis
  proof cases
    case 1
    then have Pne: "P \<noteq> []" by (auto simp: is_rooted_def HasPrefix_def)
    have "\<forall>e\<in>set (clean_elems True [] (Split P CHR ''/'')). plain e"
      by (rule clean_rooted_plain) (auto dest: Split_elems)
    with Clean_render [OF Pne] 1 show ?thesis by auto
  next
    case 2
    have "filepath_Clean [] = render (is_rooted []) []"
      by (simp add: filepath_Clean_def render_def is_rooted_def HasPrefix_def)
    with 2 have "(\<forall>e\<in>set []. plain e) \<and> filepath_Clean P = render (is_rooted P) []"
      by simp
    then show ?thesis ..
  next
    case 3
    have "filepath_Clean ''*'' = render (is_rooted ''*'') [''*'']" by code_simp
    moreover have "plain ''*''" by code_simp
    ultimately have "(\<forall>e\<in>set [''*'']. plain e) \<and>
        filepath_Clean P = render (is_rooted P) [''*'']"
      using 3 by simp
    then show ?thesis ..
  qed
qed

lemma Static_path_within_root:
  assumes "request_path (Path r)" and "dir \<noteq> []"
  shows "within_root (filepath_Clean dir) (Static_path dir r)"
proof -
  define rd where "rd = is_rooted dir"
  define dout where "dout = clean_elems rd [] (Split dir CHR ''/'')"
  from Clean_request_path [OF assms(1)] obtain out1 where
    pl1: "\<forall>e\<in>set out1. plain e" and
    cp: "filepath_Clean (Path r) = render (is_rooted (Path r)) out1"
    by blast
  define cp' where "cp' = render (is_rooted (Path r)) out1"
  have okd: "\<forall>e\<in>set dout. okel e"
    unfolding dout_def by (rule clean_okel) (auto dest: Split_elems)
  have ok1: "\<forall>e\<in>set out1. okel e" using pl1 by (simp add: plain_def okel_def)
  have full: "Static_path dir r = filepath_Clean (dir @ CHR ''/'' # cp')"
    using assms(2) cp by (simp add: Static_path_def Let_def cp'_def)
  have rfull: "is_rooted (dir @ CHR ''/'' # cp') = rd"
    using assms(2) by (cases dir) (simp_all add: rd_def is_rooted_def HasPrefix_def)
  have sp: "Split (dir @ CHR ''/'' # cp') CHR ''/'' = Split dir CHR ''/'' @ Split cp' CHR ''/''"
    by (rule Split_append_sep)
  have "clean_elems rd [] (Split (dir @ CHR ''/'' # cp') CHR ''/'')
        = clean_elems rd dout (Split cp' CHR ''/'')"
    by (simp only: sp clean_elems_append dout_def)
  also have "\<dots> = dout @ out1"
    unfolding cp'_def by (rule clean_after_render [OF pl1])
  finally have ce: "clean_elems rd [] (Split (dir @ CHR ''/'' # cp') CHR ''/'') = dout @ out1" .
  have res: "Static_path dir r = render rd (dout @ out1)"
    unfolding full using Clean_render [of "dir @ CHR ''/'' # cp'"] rfull ce by simp
  have root: "filepath_Clean dir = render rd dout"
    using Clean_render [OF assms(2)] by (simp add: rd_def dout_def)
  have okall: "\<forall>e\<in>set (dout @ out1). okel e" using okd ok1 by auto
  have nodd: "''..'' \<notin> set out1" using pl1 by (auto simp: plain_def)
  show ?thesis
    unfolding within_root_def res root
    using nodd by (simp add: is_rooted_render [OF okall] is_rooted_render [OF okd]
      path_elems_render [OF okall] path_elems_render [OF okd])
qed

text \<open>
  C9, as the code has it.  The handler that \<open>Static\<close> installs hands
  \<open>Static_path dir r\<close> to the file server.  For every URL path of a request (a path
  that starts with a slash, the empty path or the star) and a directory that is not the
  empty string, this name lies within the cleaned directory: same rootedness, the
  directory's elements first, and no \<open>..\<close> after them.
\<close>

theorem static_file_within_root:
  assumes "Static Compile ServeFile pattern dir this = Inr (rt, this')"
    and "request_path (Path r)" and "dir \<noteq> []"
  shows "handler rt w r = ServeFile (Static_path dir r) w r \<and>
         within_root (filepath_Clean dir) (Static_path dir r)"
  using AddRoute_fields(2) [OF assms(1) [unfolded Static_def]]
    Static_path_within_root [OF assms(2) assms(3)]
  by simp

theorem static_file_within_root_witness:
  "Static_path ''/srv/public'' get_traversal = ''/srv/public/etc/passwd'' \<and>
   within_root (filepath_Clean ''/srv/public'') (Static_path ''/srv/public'' get_traversal) \<and>
   handler (routes files_mux ! 0) (new_responseWriter new_sink) get_traversal
     = say ''/srv/public/etc/passwd'' (new_responseWriter new_sink) get_traversal"
proof -
  have "\<not> isl (Static regexp_Compile say ''/files/'' ''/srv/public'' New)"
    by code_simp
  then obtain rt this' where
    reg: "Static regexp_Compile say ''/files/'' ''/srv/public'' New = Inr (rt, this')"
    by (cases "Static regexp_Compile say ''/files/'' ''/srv/public'' New") auto
  have mux: "files_mux = this'"
    using reg by (simp add: files_mux_def register_static_def)
  have rl: "routes this' = [rt]"
    using AddRoute_fields(4) [OF reg [unfolded Static_def]] by (simp add: New_def)
  have h1: "request_path (Path get_traversal)" by code_simp
  have h2: "''/srv/public'' \<noteq> []" by simp
  have p: "Static_path ''/srv/public'' get_traversal = ''/srv/public/etc/passwd''"
    by code_simp
  from static_file_within_root [OF reg h1 h2, of "new_responseWriter new_sink"] p
  show ?thesis unfolding mux rl by simp
qed

text \<open>
  The claim as stated fails for the empty directory, which \<open>filepath.Join\<close> ignores:
  the static route \<open>/\<close> with the directory \<open>""\<close> serves the request
  \<open>/etc/passwd\<close>, and the file name is \<open>/etc/passwd\<close>, a rooted name for a relative
  root.
\<close>

theorem static_file_empty_directory_escapes:
  "route_serves (routes root_files_mux ! 0) get_etc_passwd \<and>
   Static_path [] get_etc_passwd = ''/etc/passwd'' \<and>
   \<not> within_root (filepath_Clean []) (Static_path [] get_etc_passwd)"
  by code_simp

end
